theory Spec2Isabelle
  imports Main "HOL-Library.Sublist" "HOL-Library.AList" "HOL-Library.Multiset"
begin

section \<open>The extension manager of api/src/extensions.ts\<close>

text \<open>
  The class \<open>ExtensionManager\<close> is embedded by explicit state passing. Its private fields
  are the record \<open>ExtensionManager\<close>. Everything the class reaches through an import
  (the event emitter, node-cron, the logger, the module loader, the bundler, the package
  installer, the discovery helpers) is outside the class: what such a collaborator answers
  is a field of the record \<open>env\<close>, and what the class does to it is written to the record
  \<open>world\<close>, which also keeps the ordered list of all calls made.
  A JavaScript \<open>throw\<close> is the left injection of a sum; since fields assigned before a
  throw keep their value, every method returns the manager and the world next to its
  outcome.
\<close>

subsection \<open>Data\<close>

text \<open>A thrown value.\<close>

datatype exn = Error string

text \<open>Function references are compared by identity only, so a natural number stands for one.\<close>

type_synonym handler = nat
type_synonym task = nat
type_synonym rollup_build = nat

text \<open>
  \<open>Extension\<close> of @directus/shared/types, restricted to the fields this file reads.
  Extension types are string literals at run time.
\<close>

record Extension =
  name :: string
  ext_type :: string
  path :: string
  entrypoint :: "string option"

text \<open>The element type of \<open>apiHooks\<close>, a union discriminated by \<open>type\<close>.\<close>

datatype ApiHook =
    CronHook (hook_path: string) task
  | EventHook (hook_path: string) string handler

datatype ApiEndpoint = ApiEndpoint (endpoint_path: string)

text \<open>
  A module as \<open>require\<close> returns it: the configuration itself or an object whose
  \<open>default\<close> property holds it.
\<close>

datatype 'c module = Exports 'c | DefaultExport 'c

text \<open>
  A \<open>HookConfig\<close> is a function from the capability bundle to a record from event names to
  handlers. The bundle is fixed, so the function is given by what the one call does:
  throw, or return entries, in the order of \<open>Object.entries\<close>.
\<close>

type_synonym HookConfig = "exn + (string \<times> handler) list"

text \<open>
  An \<open>EndpointConfig\<close> is a registration function or an object \<open>{id, handler}\<close>; the
  registration function, applied to the scoped router and the bundle, throws or returns.
\<close>

datatype EndpointConfig =
    EndpointFunction "exn + unit"
  | EndpointObject string "exn + unit"

text \<open>Every call to a collaborator, in the order the calls are made.\<close>

datatype call =
    CallEnsureExtensionDirs string "string list"
  | CallGetPackageExtensions string "string list"
  | CallGetLocalExtensions string "string list"
  | CallRequire string
  | CallRegister string
  | CallEmitterOn string handler
  | CallEmitterOff string handler
  | CallSchedule string task
  | CallTaskDestroy task
  | CallCacheDelete string
  | CallRouterUse string
  | CallReaddir
  | CallRollup string
  | CallBundleGenerate rollup_build
  | CallBundleClose rollup_build
  | CallInstallPackage string
  | CallHandler handler
  | LoggerWarn string
  | LoggerWarnError exn
  | LoggerInfo string
  | LoggerError exn

text \<open>
  The world outside the manager: the subscriptions of the shared emitter, the live
  scheduled tasks of node-cron with the counter that names the next task, and the
  calls made so far.
\<close>

record world =
  listeners :: "(string \<times> handler) list"
  tasks :: "(task \<times> string \<times> handler) list"
  next_task :: nat
  trace :: "call list"

text \<open>The private fields of the class; \<open>endpointRouter\<close> is the router's stack of mount paths.\<close>

record ExtensionManager =
  isInitialized :: bool
  extensions :: "Extension list"
  appExtensions :: "(string \<times> string) list"
  apiHooks :: "ApiHook list"
  apiEndpoints :: "ApiEndpoint list"
  endpointRouter :: "string list"
  isScheduleHookEnabled :: bool

text \<open>
  The imports of the file. The constants of @directus/shared/constants and the settings
  of \<open>./env\<close> are not part of this file and are taken as parameters; so is the answer of
  every collaborator.
\<close>

record env =
  EXTENSIONS_PATH :: string
  SERVE_APP :: bool
  EXTENSION_TYPES :: "string list"
  API_EXTENSION_TYPES :: "string list"
  EXTENSION_PACKAGE_TYPES :: "string list"
  API_EXTENSION_PACKAGE_TYPES :: "string list"
  APP_EXTENSION_TYPES :: "string list"
  APP_SHARED_DEPS :: "string list"
  EXTENSION_NAME_REGEX :: "string \<Rightarrow> bool"
  REGEX_BETWEEN_PARENS :: "string \<Rightarrow> string option"
  ensureExtensionDirs :: "string \<Rightarrow> string list \<Rightarrow> exn + unit"
  getPackageExtensions :: "string \<Rightarrow> string list \<Rightarrow> exn + Extension list"
  getLocalExtensions :: "string \<Rightarrow> string list \<Rightarrow> exn + Extension list"
  generateExtensionsEntry :: "string \<Rightarrow> Extension list \<Rightarrow> string"
  path_resolve :: "string \<Rightarrow> string \<Rightarrow> string"
  require_hook :: "string \<Rightarrow> exn + HookConfig module"
  require_endpoint :: "string \<Rightarrow> exn + EndpointConfig module"
  require_resolve :: "string \<Rightarrow> exn + string"
  validate :: "string \<Rightarrow> bool"
  installPackage :: "string \<Rightarrow> bool"
  destroy :: "task \<Rightarrow> exn + unit"
  router_use :: "string \<Rightarrow> exn + unit"
  readdir_app_dist :: "exn + string list"
  dep_url :: "string \<Rightarrow> string"
  rollup :: "string \<Rightarrow> string list \<Rightarrow> (string \<times> string) list \<Rightarrow> exn + rollup_build"
  bundle_generate :: "rollup_build \<Rightarrow> exn + string"
  bundle_close :: "rollup_build \<Rightarrow> exn + unit"

subsection \<open>The collaborators' effects\<close>

definition record_call :: "call \<Rightarrow> world \<Rightarrow> world" where
  "record_call c w = w\<lparr>trace := trace w @ [c]\<rparr>"

text \<open>Modelled from the spec: the shared event bus of ./emitter, which is not part of this
  file. \<open>emitter.on\<close> subscribes the handler as it is; \<open>emitter.off\<close> removes one
  subscription of exactly this handler to this event from future dispatch.\<close>

definition emitter_on :: "string \<Rightarrow> handler \<Rightarrow> world \<Rightarrow> world" where
  "emitter_on event h w =
     record_call (CallEmitterOn event h) (w\<lparr>listeners := listeners w @ [(event, h)]\<rparr>)"

definition emitter_off :: "string \<Rightarrow> handler \<Rightarrow> world \<Rightarrow> world" where
  "emitter_off event h w =
     record_call (CallEmitterOff event h) (w\<lparr>listeners := remove1 (event, h) (listeners w)\<rparr>)"

text \<open>The package node-cron: \<open>schedule\<close> creates a new live task, which it is called for
  on validated expressions only.\<close>

definition schedule :: "string \<Rightarrow> handler \<Rightarrow> world \<Rightarrow> task \<times> world" where
  "schedule cron h w =
     (next_task w,
      record_call (CallSchedule cron (next_task w))
        (w\<lparr>tasks := tasks w @ [(next_task w, cron, h)], next_task := Suc (next_task w)\<rparr>))"

text \<open>
  \<open>task.destroy()\<close>. In the versions of node-cron whose tasks have this method it stops
  the task and removes it for good. In the versions whose tasks do not have it (3.x) the
  call throws a \<open>TypeError\<close> and the task stays live. Which of the two happens is the
  answer \<open>destroy\<close> of the environment.
\<close>

definition task_destroy :: "env \<Rightarrow> task \<Rightarrow> world \<Rightarrow> (exn + unit) \<times> world" where
  "task_destroy env t w =
     (let w1 = record_call (CallTaskDestroy t) w
      in case destroy env t of
           Inl e \<Rightarrow> (Inl e, w1)
         | Inr _ \<Rightarrow> (Inr (), w1\<lparr>tasks := filter (\<lambda>x. fst x \<noteq> t) (tasks w1)\<rparr>))"

text \<open>Modelled from the spec: \<open>getModuleDefault\<close> of ./utils/get-module-default, which
  obtains the default export of a loaded module.\<close>

fun getModuleDefault :: "'c module \<Rightarrow> 'c" where
  "getModuleDefault (DefaultExport c) = c"
| "getModuleDefault (Exports c) = c"


definition logger_warn :: "string \<Rightarrow> world \<Rightarrow> world" where
  "logger_warn m w = record_call (LoggerWarn m) w"

definition logger_warn_error :: "exn \<Rightarrow> world \<Rightarrow> world" where
  "logger_warn_error e w = record_call (LoggerWarnError e) w"

definition logger_info :: "string \<Rightarrow> world \<Rightarrow> world" where
  "logger_info m w = record_call (LoggerInfo m) w"

definition logger_error :: "exn \<Rightarrow> world \<Rightarrow> world" where
  "logger_error e w = record_call (LoggerError e) w"

text \<open>\<open>Array.prototype.join\<close>.\<close>

fun join :: "string \<Rightarrow> string list \<Rightarrow> string" where
  "join sep [] = []"
| "join sep [x] = x"
| "join sep (x # y # ys) = x @ sep @ join sep (y # ys)"

text \<open>\<open>hook.entrypoint || ''\<close>: an absent entrypoint counts as the empty string.\<close>

definition entrypoint_or_empty :: "Extension \<Rightarrow> string" where
  "entrypoint_or_empty e = (case entrypoint e of None \<Rightarrow> [] | Some p \<Rightarrow> p)"

subsection \<open>Reading the extension list\<close>

definition listExtensions :: "string option \<Rightarrow> ExtensionManager \<Rightarrow> string list" where
  "listExtensions type s =
     (case type of
        None \<Rightarrow> map name (extensions s)
      | Some t \<Rightarrow> map name (filter (\<lambda>extension. ext_type extension = t) (extensions s)))"

definition getAppExtensions :: "string \<Rightarrow> ExtensionManager \<Rightarrow> string option" where
  "getAppExtensions type s = map_of (appExtensions s) type"

definition getEndpointRouter :: "ExtensionManager \<Rightarrow> string list" where
  "getEndpointRouter s = endpointRouter s"

subsection \<open>Discovery\<close>

definition getExtensions :: "env \<Rightarrow> world \<Rightarrow> (exn + Extension list) \<times> world" where
  "getExtensions env w =
     (let ptypes = (if SERVE_APP env then EXTENSION_PACKAGE_TYPES env
                    else API_EXTENSION_PACKAGE_TYPES env);
          w1 = record_call (CallGetPackageExtensions ''.'' ptypes) w
      in case getPackageExtensions env ''.'' ptypes of
           Inl e \<Rightarrow> (Inl e, w1)
         | Inr packageExtensions \<Rightarrow>
             (let ltypes = (if SERVE_APP env then EXTENSION_TYPES env
                            else API_EXTENSION_TYPES env);
                  w2 = record_call (CallGetLocalExtensions (EXTENSIONS_PATH env) ltypes) w1
              in case getLocalExtensions env (EXTENSIONS_PATH env) ltypes of
                   Inl e \<Rightarrow> (Inl e, w2)
                 | Inr localExtensions \<Rightarrow> (Inr (packageExtensions @ localExtensions), w2)))"

text \<open>The \<open>try\<close> block of \<open>initialize\<close>: the list is assigned only when nothing has thrown.\<close>

definition load_extensions ::
  "env \<Rightarrow> ExtensionManager \<Rightarrow> world \<Rightarrow> ExtensionManager \<times> world" where
  "load_extensions env s w =
     (let types = (if SERVE_APP env then EXTENSION_TYPES env else API_EXTENSION_TYPES env);
          w1 = record_call (CallEnsureExtensionDirs (EXTENSIONS_PATH env) types) w;
          caught = (\<lambda>err w'. (s, logger_warn_error err (logger_warn ''Couldn't load extensions'' w')))
      in case ensureExtensionDirs env (EXTENSIONS_PATH env) types of
           Inl err \<Rightarrow> caught err w1
         | Inr _ \<Rightarrow>
             (case getExtensions env w1 of
                (Inl err, w2) \<Rightarrow> caught err w2
              | (Inr found, w2) \<Rightarrow> (s\<lparr>extensions := found\<rparr>, w2)))"

subsection \<open>The hook registrar\<close>

text \<open>
  One iteration of the loop over \<open>Object.entries(events)\<close>. \<open>!cron\<close> holds for an absent
  match and for the empty string. The template literal prints an absent match as
  \<open>undefined\<close>.
\<close>

definition register_event ::
  "env \<Rightarrow> string \<Rightarrow> string \<times> handler \<Rightarrow> ExtensionManager \<Rightarrow> world \<Rightarrow> ExtensionManager \<times> world" where
  "register_event env hookPath entry s w =
     (case entry of (event, h) \<Rightarrow>
        if prefix ''cron('' event then
          (case REGEX_BETWEEN_PARENS env event of
             None \<Rightarrow>
               (s, logger_warn
                     (''Couldn't register cron hook. Provided cron is invalid: '' @ ''undefined'') w)
           | Some cron \<Rightarrow>
               if cron = [] \<or> \<not> validate env cron then
                 (s, logger_warn
                       (''Couldn't register cron hook. Provided cron is invalid: '' @ cron) w)
               else
                 (case schedule cron h w of
                    (t, w1) \<Rightarrow> (s\<lparr>apiHooks := apiHooks s @ [CronHook hookPath t]\<rparr>, w1)))
        else
          (s\<lparr>apiHooks := apiHooks s @ [EventHook hookPath event h]\<rparr>, emitter_on event h w))"

fun register_events ::
  "env \<Rightarrow> string \<Rightarrow> (string \<times> handler) list \<Rightarrow> ExtensionManager \<Rightarrow> world \<Rightarrow> ExtensionManager \<times> world" where
  "register_events env hookPath [] s w = (s, w)"
| "register_events env hookPath (entry # entries) s w =
     (case register_event env hookPath entry s w of
        (s1, w1) \<Rightarrow> register_events env hookPath entries s1 w1)"

definition registerHook ::
  "env \<Rightarrow> Extension \<Rightarrow> ExtensionManager \<Rightarrow> world \<Rightarrow> (exn + unit) \<times> ExtensionManager \<times> world" where
  "registerHook env hook s w =
     (let hookPath = path_resolve env (path hook) (entrypoint_or_empty hook);
          w1 = record_call (CallRequire hookPath) w
      in case require_hook env hookPath of
           Inl e \<Rightarrow> (Inl e, s, w1)
         | Inr hookInstance \<Rightarrow>
             (let register = getModuleDefault hookInstance;
                  w2 = record_call (CallRegister hookPath) w1
              in case register of
                   Inl e \<Rightarrow> (Inl e, s, w2)
                 | Inr events \<Rightarrow>
                     (case register_events env hookPath events s w2 of
                        (s1, w3) \<Rightarrow> (Inr (), s1, w3))))"

fun registerHooks_loop ::
  "env \<Rightarrow> Extension list \<Rightarrow> ExtensionManager \<Rightarrow> world \<Rightarrow> ExtensionManager \<times> world" where
  "registerHooks_loop env [] s w = (s, w)"
| "registerHooks_loop env (hook # hooks) s w =
     (case registerHook env hook s w of
        (Inl error, s1, w1) \<Rightarrow>
          registerHooks_loop env hooks s1
            (logger_warn_error error
               (logger_warn (''Couldn't register hook '' @ [CHR 0x22] @ name hook @ [CHR 0x22]) w1))
      | (Inr _, s1, w1) \<Rightarrow> registerHooks_loop env hooks s1 w1)"

definition registerHooks :: "env \<Rightarrow> ExtensionManager \<Rightarrow> world \<Rightarrow> ExtensionManager \<times> world" where
  "registerHooks env s w =
     registerHooks_loop env (filter (\<lambda>extension. ext_type extension = ''hook'') (extensions s)) s w"

text \<open>
  The callback handed to \<open>schedule\<close>, run by node-cron when the task fires. It reads the
  flag of the manager as it is at that time. \<open>run\<close> is what calling a handler does.
\<close>

definition cron_callback ::
  "(handler \<Rightarrow> exn + unit) \<Rightarrow> handler \<Rightarrow> ExtensionManager \<Rightarrow> world \<Rightarrow> (exn + unit) \<times> world" where
  "cron_callback run h s w =
     (if isScheduleHookEnabled s then
        (case run h of
           Inl error \<Rightarrow> (Inr (), logger_error error (record_call (CallHandler h) w))
         | Inr _ \<Rightarrow> (Inr (), record_call (CallHandler h) w))
      else (Inr (), w))"

text \<open>node-cron firing a task: the callbacks of the live tasks of that name are run.\<close>

fun fire_tasks ::
  "(handler \<Rightarrow> exn + unit) \<Rightarrow> task \<Rightarrow> (task \<times> string \<times> handler) list \<Rightarrow> ExtensionManager \<Rightarrow> world
     \<Rightarrow> (exn + unit) \<times> world" where
  "fire_tasks run t [] s w = (Inr (), w)"
| "fire_tasks run t ((t', cron, h) # ts) s w =
     (if t' = t then
        (case cron_callback run h s w of
           (Inl e, w1) \<Rightarrow> (Inl e, w1)
         | (Inr _, w1) \<Rightarrow> fire_tasks run t ts s w1)
      else fire_tasks run t ts s w)"

definition fire :: "(handler \<Rightarrow> exn + unit) \<Rightarrow> task \<Rightarrow> ExtensionManager \<Rightarrow> world \<Rightarrow> (exn + unit) \<times> world" where
  "fire run t s w = fire_tasks run t (tasks w) s w"

subsection \<open>The endpoint registrar\<close>

text \<open>
  The \<open>router\<close> argument is always \<open>this.endpointRouter\<close>. \<open>router.use\<close> of express compiles the
  mount path when it is called: it throws for a path it cannot compile (the answer
  \<open>router_use\<close> of the environment) and otherwise pushes the path on the stack of the
  router, before the registration function is called.
\<close>

definition registerEndpoint ::
  "env \<Rightarrow> Extension \<Rightarrow> ExtensionManager \<Rightarrow> world \<Rightarrow> (exn + unit) \<times> ExtensionManager \<times> world" where
  "registerEndpoint env endpoint s w =
     (let endpointPath = path_resolve env (path endpoint) (entrypoint_or_empty endpoint);
          w1 = record_call (CallRequire endpointPath) w
      in case require_endpoint env endpointPath of
           Inl e \<Rightarrow> (Inl e, s, w1)
         | Inr endpointInstance \<Rightarrow>
             (let config = getModuleDefault endpointInstance;
                  register = (case config of EndpointFunction r \<Rightarrow> r | EndpointObject i r \<Rightarrow> r);
                  routeName = (case config of EndpointFunction r \<Rightarrow> name endpoint
                               | EndpointObject i r \<Rightarrow> i);
                  w2 = record_call (CallRouterUse (''/'' @ routeName)) w1
              in case router_use env (''/'' @ routeName) of
                   Inl e \<Rightarrow> (Inl e, s, w2)
                 | Inr _ \<Rightarrow>
                     (let s1 = s\<lparr>endpointRouter := endpointRouter s @ [''/'' @ routeName]\<rparr>;
                          w3 = record_call (CallRegister endpointPath) w2
                      in case register of
                           Inl e \<Rightarrow> (Inl e, s1, w3)
                         | Inr _ \<Rightarrow>
                             (Inr (),
                              s1\<lparr>apiEndpoints := apiEndpoints s1 @ [ApiEndpoint endpointPath]\<rparr>,
                              w3))))"

fun registerEndpoints_loop ::
  "env \<Rightarrow> Extension list \<Rightarrow> ExtensionManager \<Rightarrow> world \<Rightarrow> ExtensionManager \<times> world" where
  "registerEndpoints_loop env [] s w = (s, w)"
| "registerEndpoints_loop env (endpoint # endpoints) s w =
     (case registerEndpoint env endpoint s w of
        (Inl error, s1, w1) \<Rightarrow>
          registerEndpoints_loop env endpoints s1
            (logger_warn_error error
               (logger_warn
                  (''Couldn't register endpoint '' @ [CHR 0x22] @ name endpoint @ [CHR 0x22]) w1))
      | (Inr _, s1, w1) \<Rightarrow> registerEndpoints_loop env endpoints s1 w1)"

definition registerEndpoints :: "env \<Rightarrow> ExtensionManager \<Rightarrow> world \<Rightarrow> ExtensionManager \<times> world" where
  "registerEndpoints env s w =
     registerEndpoints_loop env
       (filter (\<lambda>extension. ext_type extension = ''endpoint'') (extensions s)) s w"

subsection \<open>The bundle generator\<close>

text \<open>\<open>dep.replace(/\//g, '_')\<close> and \<open>file.substring(0, file.indexOf('.'))\<close>; the latter is
  empty when the file name has no dot.\<close>

definition dep_slug :: "string \<Rightarrow> string" where
  "dep_slug dep = map (\<lambda>c. if c = CHR ''/'' then CHR ''_'' else c) dep"

definition file_stem :: "string \<Rightarrow> string" where
  "file_stem file = (if CHR ''.'' \<in> set file then takeWhile (\<lambda>c. c \<noteq> CHR ''.'') file else [])"

fun getSharedDepsMapping_loop ::
  "env \<Rightarrow> string list \<Rightarrow> string list \<Rightarrow> (string \<times> string) list \<Rightarrow> world
     \<Rightarrow> (string \<times> string) list \<times> world" where
  "getSharedDepsMapping_loop env appDir [] depsMapping w = (depsMapping, w)"
| "getSharedDepsMapping_loop env appDir (dep # deps) depsMapping w =
     (case find (\<lambda>file. dep_slug dep = file_stem file) appDir of
        Some depName \<Rightarrow>
          if depName \<noteq> [] then
            getSharedDepsMapping_loop env appDir deps
              (AList.update dep (dep_url env depName) depsMapping) w
          else
            getSharedDepsMapping_loop env appDir deps depsMapping
              (logger_warn
                 (''Couldn't find shared extension dependency '' @ [CHR 0x22] @ dep @ [CHR 0x22]) w)
      | None \<Rightarrow>
          getSharedDepsMapping_loop env appDir deps depsMapping
            (logger_warn
               (''Couldn't find shared extension dependency '' @ [CHR 0x22] @ dep @ [CHR 0x22]) w))"

definition getSharedDepsMapping ::
  "env \<Rightarrow> string list \<Rightarrow> world \<Rightarrow> (exn + (string \<times> string) list) \<times> world" where
  "getSharedDepsMapping env deps w =
     (let w1 = record_call CallReaddir w
      in case readdir_app_dist env of
           Inl e \<Rightarrow> (Inl e, w1)
         | Inr appDir \<Rightarrow>
             (case getSharedDepsMapping_loop env appDir deps [] w1 of
                (depsMapping, w2) \<Rightarrow> (Inr depsMapping, w2)))"

text \<open>
  The loop over \<open>APP_EXTENSION_TYPES\<close>. The entries of the alias plugin are the pairs of
  the mapping, the externals are its values. A throw of \<open>rollup\<close>, of \<open>bundle.generate\<close> or
  of \<open>bundle.close\<close> leaves the loop.
\<close>

fun generateExtensionBundles_loop ::
  "env \<Rightarrow> Extension list \<Rightarrow> (string \<times> string) list \<Rightarrow> string list \<Rightarrow> (string \<times> string) list
     \<Rightarrow> world \<Rightarrow> (exn + (string \<times> string) list) \<times> world" where
  "generateExtensionBundles_loop env exts sharedDepsMapping [] bundles w = (Inr bundles, w)"
| "generateExtensionBundles_loop env exts sharedDepsMapping (extensionType # types) bundles w =
     (let entry = generateExtensionsEntry env extensionType exts;
          w1 = record_call (CallRollup entry) w
      in case rollup env entry (map snd sharedDepsMapping) sharedDepsMapping of
           Inl e \<Rightarrow> (Inl e, w1)
         | Inr b \<Rightarrow>
             (let w2 = record_call (CallBundleGenerate b) w1
              in case bundle_generate env b of
                   Inl e \<Rightarrow> (Inl e, w2)
                 | Inr code \<Rightarrow>
                     (let w3 = record_call (CallBundleClose b) w2
                      in case bundle_close env b of
                           Inl e \<Rightarrow> (Inl e, w3)
                         | Inr _ \<Rightarrow>
                             generateExtensionBundles_loop env exts sharedDepsMapping types
                               (AList.update extensionType code bundles) w3)))"

definition generateExtensionBundles ::
  "env \<Rightarrow> ExtensionManager \<Rightarrow> world \<Rightarrow> (exn + (string \<times> string) list) \<times> world" where
  "generateExtensionBundles env s w =
     (case getSharedDepsMapping env (APP_SHARED_DEPS env) w of
        (Inl e, w1) \<Rightarrow> (Inl e, w1)
      | (Inr sharedDepsMapping, w1) \<Rightarrow>
          generateExtensionBundles_loop env (extensions s) sharedDepsMapping
            (APP_EXTENSION_TYPES env) [] w1)"

subsection \<open>Teardown\<close>

text \<open>
  \<open>task.destroy()\<close> can throw, and \<open>require.resolve\<close> throws when the path no longer
  resolves; either throw leaves the loop before the record list is emptied.
\<close>

fun unregisterHooks_loop :: "env \<Rightarrow> ApiHook list \<Rightarrow> world \<Rightarrow> (exn + unit) \<times> world" where
  "unregisterHooks_loop env [] w = (Inr (), w)"
| "unregisterHooks_loop env (hook # hooks) w =
     (case (case hook of
              CronHook p t \<Rightarrow> task_destroy env t w
            | EventHook p event h \<Rightarrow> (Inr (), emitter_off event h w)) of
        (Inl e, w1) \<Rightarrow> (Inl e, w1)
      | (Inr _, w1) \<Rightarrow>
          (case require_resolve env (hook_path hook) of
             Inl e \<Rightarrow> (Inl e, w1)
           | Inr file \<Rightarrow> unregisterHooks_loop env hooks (record_call (CallCacheDelete file) w1)))"

definition unregisterHooks ::
  "env \<Rightarrow> ExtensionManager \<Rightarrow> world \<Rightarrow> (exn + unit) \<times> ExtensionManager \<times> world" where
  "unregisterHooks env s w =
     (case unregisterHooks_loop env (apiHooks s) w of
        (Inl e, w1) \<Rightarrow> (Inl e, s, w1)
      | (Inr _, w1) \<Rightarrow> (Inr (), s\<lparr>apiHooks := []\<rparr>, w1))"

fun unregisterEndpoints_loop :: "env \<Rightarrow> ApiEndpoint list \<Rightarrow> world \<Rightarrow> (exn + unit) \<times> world" where
  "unregisterEndpoints_loop env [] w = (Inr (), w)"
| "unregisterEndpoints_loop env (endpoint # endpoints) w =
     (case require_resolve env (endpoint_path endpoint) of
        Inl e \<Rightarrow> (Inl e, w)
      | Inr file \<Rightarrow> unregisterEndpoints_loop env endpoints (record_call (CallCacheDelete file) w))"

definition unregisterEndpoints ::
  "env \<Rightarrow> ExtensionManager \<Rightarrow> world \<Rightarrow> (exn + unit) \<times> ExtensionManager \<times> world" where
  "unregisterEndpoints env s w =
     (case unregisterEndpoints_loop env (apiEndpoints s) w of
        (Inl e, w1) \<Rightarrow> (Inl e, s, w1)
      | (Inr _, w1) \<Rightarrow> (Inr (), s\<lparr>endpointRouter := [], apiEndpoints := []\<rparr>, w1))"

subsection \<open>The lifecycle\<close>

text \<open>The constructor.\<close>

definition new_ExtensionManager :: ExtensionManager where
  "new_ExtensionManager =
     \<lparr>isInitialized = False, extensions = [], appExtensions = [], apiHooks = [],
      apiEndpoints = [], endpointRouter = [], isScheduleHookEnabled = True\<rparr>"

text \<open>\<open>initialize({ schedule })\<close>; a call without argument is \<open>initialize env True\<close>.\<close>

definition initialize ::
  "env \<Rightarrow> bool \<Rightarrow> ExtensionManager \<Rightarrow> world \<Rightarrow> (exn + unit) \<times> ExtensionManager \<times> world" where
  "initialize env sched s w =
     (let s0 = s\<lparr>isScheduleHookEnabled := sched\<rparr>
      in if isInitialized s0 then (Inr (), s0, w)
         else
           (case load_extensions env s0 w of (s1, w1) \<Rightarrow>
            case registerHooks env s1 w1 of (s2, w2) \<Rightarrow>
            case registerEndpoints env s2 w2 of (s3, w3) \<Rightarrow>
            case (if SERVE_APP env then
                    (case generateExtensionBundles env s3 w3 of
                       (Inl e, w4) \<Rightarrow> (Inl e, s3, w4)
                     | (Inr bundles, w4) \<Rightarrow> (Inr (), s3\<lparr>appExtensions := bundles\<rparr>, w4))
                  else (Inr (), s3, w3)) of
              (Inl e, s4, w4) \<Rightarrow> (Inl e, s4, w4)
            | (Inr _, s4, w4) \<Rightarrow>
                (let loadedExtensions = listExtensions None s4;
                     w5 = (if length loadedExtensions > 0 then
                             logger_info (''Loaded extensions: '' @ join '', '' loadedExtensions) w4
                           else w4)
                 in (Inr (), s4\<lparr>isInitialized := True\<rparr>, w5))))"

definition reload ::
  "env \<Rightarrow> ExtensionManager \<Rightarrow> world \<Rightarrow> (exn + unit) \<times> ExtensionManager \<times> world" where
  "reload env s w =
     (if \<not> isInitialized s then (Inr (), s, w)
      else
        (case unregisterHooks env s (logger_info ''Reloading extensions'' w) of
           (Inl e, s1, w1) \<Rightarrow> (Inl e, s1, w1)
         | (Inr _, s1, w1) \<Rightarrow>
             (case unregisterEndpoints env s1 w1 of
                (Inl e, s2, w2) \<Rightarrow> (Inl e, s2, w2)
              | (Inr _, s2, w2) \<Rightarrow>
                  (let s3 = (if SERVE_APP env then s2\<lparr>appExtensions := []\<rparr> else s2)
                   in initialize env True (s3\<lparr>isInitialized := False\<rparr>) w2))))"

definition install ::
  "env \<Rightarrow> string \<Rightarrow> ExtensionManager \<Rightarrow> world \<Rightarrow> (exn + bool) \<times> ExtensionManager \<times> world" where
  "install env name' s w =
     (if \<not> EXTENSION_NAME_REGEX env name' then (Inr False, s, w)
      else
        (let w1 = record_call (CallInstallPackage name') w
         in if \<not> installPackage env name' then (Inr False, s, w1)
            else
              (case reload env s w1 of
                 (Inl e, s1, w2) \<Rightarrow> (Inl e, s1, w2)
               | (Inr _, s1, w2) \<Rightarrow> (Inr True, s1, w2))))"

subsection \<open>A sample installation\<close>

text \<open>
  Concrete answers of the collaborators, used to run the definitions: the regular
  expression \<open>/\(([^)]+)\)/\<close> for \<open>REGEX_BETWEEN_PARENS\<close>, a name pattern that asks for the
  prefix \<open>directus-extension-\<close>, two accepted cron expressions, three hook extensions (the
  second one throws when it is registered) and two endpoint extensions (the first one
  throws when it is registered). The tasks of its node-cron have no \<open>destroy\<close> method, and
  its router cannot compile the mount path \<open>/e(\<close>.
\<close>

fun between_parens :: "string \<Rightarrow> string option" where
  "between_parens [] = None"
| "between_parens (c # cs) =
     (if c = CHR ''('' then
        (let body = takeWhile (\<lambda>x. x \<noteq> CHR '')'') cs
         in if body \<noteq> [] \<and> length body < length cs then Some body else between_parens cs)
      else between_parens cs)"

definition hook_a :: Extension where
  "hook_a = \<lparr>name = ''ha'', ext_type = ''hook'', path = ''/h/a'', entrypoint = Some ''i.js''\<rparr>"

definition hook_b :: Extension where
  "hook_b = \<lparr>name = ''hb'', ext_type = ''hook'', path = ''/h/b'', entrypoint = None\<rparr>"

definition hook_c :: Extension where
  "hook_c = \<lparr>name = ''hc'', ext_type = ''hook'', path = ''/h/c'', entrypoint = None\<rparr>"

definition endpoint_a :: Extension where
  "endpoint_a = \<lparr>name = ''ea'', ext_type = ''endpoint'', path = ''/e/a'', entrypoint = None\<rparr>"

definition endpoint_b :: Extension where
  "endpoint_b = \<lparr>name = ''eb'', ext_type = ''endpoint'', path = ''/e/b'', entrypoint = None\<rparr>"

definition sample_env :: env where
  "sample_env =
     \<lparr>EXTENSIONS_PATH = ''./x'',
      SERVE_APP = False,
      EXTENSION_TYPES = [''layout'', ''panel'', ''hook'', ''endpoint''],
      API_EXTENSION_TYPES = [''hook'', ''endpoint''],
      EXTENSION_PACKAGE_TYPES = [''layout'', ''panel'', ''hook'', ''endpoint'', ''pack''],
      API_EXTENSION_PACKAGE_TYPES = [''hook'', ''endpoint'', ''pack''],
      APP_EXTENSION_TYPES = [''layout'', ''panel''],
      APP_SHARED_DEPS = [''vue'', ''a/b''],
      EXTENSION_NAME_REGEX = (\<lambda>n. prefix ''directus-extension-'' n \<and> 19 < length n),
      REGEX_BETWEEN_PARENS = between_parens,
      ensureExtensionDirs = (\<lambda>root types. Inr ()),
      getPackageExtensions = (\<lambda>root types. Inr [endpoint_b]),
      getLocalExtensions = (\<lambda>root types. Inr [hook_a, hook_b, hook_c, endpoint_a]),
      generateExtensionsEntry = (\<lambda>type exts. ''entry:'' @ type),
      path_resolve = (\<lambda>dir file. if file = [] then dir else dir @ ''/'' @ file),
      require_hook =
        (\<lambda>p. if p = ''/h/a/i.js'' then
               Inr (Exports (Inr [(''items.create'', 1), (''cron(0 0 * * *)'', 2),
                                  (''cron(not-a-schedule)'', 3), (''items.update'', 4)]))
             else if p = ''/h/b'' then Inr (DefaultExport (Inl (Error ''hb'')))
             else if p = ''/h/c'' then Inr (DefaultExport (Inr [(''items.delete'', 5)]))
             else Inl (Error ''MODULE_NOT_FOUND'')),
      require_endpoint =
        (\<lambda>p. if p = ''/e/a'' then Inr (Exports (EndpointFunction (Inl (Error ''ea''))))
             else if p = ''/e/b'' then Inr (DefaultExport (EndpointObject ''custom'' (Inr ())))
             else Inl (Error ''MODULE_NOT_FOUND'')),
      require_resolve = (\<lambda>p. Inr p),
      validate = (\<lambda>c. c = ''0 0 * * *'' \<or> c = ''* * * * *''),
      installPackage = (\<lambda>n. n \<noteq> ''directus-extension-missing''),
      destroy = (\<lambda>t. Inl (Error ''TypeError: hook.task.destroy is not a function'')),
      router_use = (\<lambda>p. if p = ''/e('' then Inl (Error ''SyntaxError: Unterminated group'')
                         else Inr ()),
      readdir_app_dist = Inr [''index.html'', ''vue.1.js'', ''a_b.2.js''],
      dep_url = (\<lambda>file. ''/admin/'' @ file),
      rollup = (\<lambda>entry external aliases. Inr 0),
      bundle_generate = (\<lambda>b. Inr ''code''),
      bundle_close = (\<lambda>b. Inr ())\<rparr>"

text \<open>The same installation serving the app, once with a working bundler and once with a
  bundler that fails on the second app extension type.\<close>

definition sample_env_app :: env where
  "sample_env_app = sample_env\<lparr>SERVE_APP := True\<rparr>"

definition sample_env_app_broken :: env where
  "sample_env_app_broken =
     sample_env\<lparr>SERVE_APP := True,
                 rollup := (\<lambda>entry external aliases.
                              if entry = ''entry:panel'' then Inl (Error ''rollup'') else Inr 0)\<rparr>"

text \<open>The same installation with an extension directory that cannot be created.\<close>

definition sample_env_nodirs :: env where
  "sample_env_nodirs = sample_env\<lparr>ensureExtensionDirs := (\<lambda>root types. Inl (Error ''EACCES''))\<rparr>"

text \<open>The same installation with a first hook extension that has no cron entry, as it is,
  with an extension directory that cannot be created, serving the app, and serving the app
  with the failing bundler.\<close>

definition sample_env_events :: env where
  "sample_env_events =
     sample_env\<lparr>require_hook :=
       (\<lambda>p. if p = ''/h/a/i.js'' then
              Inr (Exports (Inr [(''items.create'', 1), (''items.update'', 4)]))
            else if p = ''/h/b'' then Inr (DefaultExport (Inl (Error ''hb'')))
            else if p = ''/h/c'' then Inr (DefaultExport (Inr [(''items.delete'', 5)]))
            else Inl (Error ''MODULE_NOT_FOUND''))\<rparr>"

definition sample_env_events_nodirs :: env where
  "sample_env_events_nodirs =
     sample_env_events\<lparr>ensureExtensionDirs := (\<lambda>root types. Inl (Error ''EACCES''))\<rparr>"

definition sample_env_events_app :: env where
  "sample_env_events_app = sample_env_events\<lparr>SERVE_APP := True\<rparr>"

definition sample_env_events_app_broken :: env where
  "sample_env_events_app_broken =
     sample_env_events\<lparr>SERVE_APP := True,
                        rollup := (\<lambda>entry external aliases.
                                     if entry = ''entry:panel'' then Inl (Error ''rollup'')
                                     else Inr 0)\<rparr>"

text \<open>The sample installation with one more endpoint extension, whose name the router
  cannot compile as a mount path, in front of the local ones.\<close>

definition endpoint_c :: Extension where
  "endpoint_c = \<lparr>name = ''e('', ext_type = ''endpoint'', path = ''/e/c'', entrypoint = None\<rparr>"

definition sample_env_paren :: env where
  "sample_env_paren =
     sample_env\<lparr>getLocalExtensions := (\<lambda>root types. Inr [endpoint_c, endpoint_a]),
                 require_endpoint :=
                   (\<lambda>p. if p = ''/e/c'' then Inr (Exports (EndpointFunction (Inr ())))
                        else if p = ''/e/a'' then Inr (Exports (EndpointFunction (Inl (Error ''ea''))))
                        else if p = ''/e/b'' then
                          Inr (DefaultExport (EndpointObject ''custom'' (Inr ())))
                        else Inl (Error ''MODULE_NOT_FOUND''))\<rparr>"

text \<open>A world in which the core has one subscription of its own.\<close>

definition sample_world :: world where
  "sample_world = \<lparr>listeners = [(''items.create'', 0)], tasks = [], next_task = 0, trace = []\<rparr>"

text \<open>The sample installation after a first \<open>initialize()\<close>.\<close>

definition sample_active :: "ExtensionManager \<times> world" where
  "sample_active = snd (initialize sample_env True new_ExtensionManager sample_world)"

text \<open>The sample installation without cron entry after a first \<open>initialize()\<close>, as it is
  and serving the app.\<close>

definition sample_events_active :: "ExtensionManager \<times> world" where
  "sample_events_active =
     snd (initialize sample_env_events True new_ExtensionManager sample_world)"

definition sample_events_active_app :: "ExtensionManager \<times> world" where
  "sample_events_active_app =
     snd (initialize sample_env_events_app True new_ExtensionManager sample_world)"

text \<open>The sample installation with the endpoint extension \<open>e(\<close>, after discovery.\<close>

definition sample_paren_discovered :: "ExtensionManager \<times> world" where
  "sample_paren_discovered = load_extensions sample_env_paren new_ExtensionManager sample_world"

text \<open>The sample installation after an \<open>initialize()\<close> in which the bundler has failed.\<close>

definition sample_half :: "ExtensionManager \<times> world" where
  "sample_half = snd (initialize sample_env_app_broken True new_ExtensionManager sample_world)"

subsection \<open>Notions used to state the properties\<close>

text \<open>
  Registration only adds: from \<open>a\<close> to \<open>b\<close> the record lists, the router stack, the
  subscriptions, the live tasks and the calls are extended at the end, the other fields
  of the manager are the same, and every task that is new has a name not used before.
\<close>

definition grows :: "ExtensionManager \<times> world \<Rightarrow> ExtensionManager \<times> world \<Rightarrow> bool" where
  "grows a b \<longleftrightarrow>
     (case a of (s, w) \<Rightarrow> case b of (s1, w1) \<Rightarrow>
        isInitialized s1 = isInitialized s \<and> extensions s1 = extensions s \<and>
        appExtensions s1 = appExtensions s \<and>
        isScheduleHookEnabled s1 = isScheduleHookEnabled s \<and>
        prefix (apiHooks s) (apiHooks s1) \<and>
        prefix (apiEndpoints s) (apiEndpoints s1) \<and>
        prefix (endpointRouter s) (endpointRouter s1) \<and>
        prefix (listeners w) (listeners w1) \<and>
        prefix (tasks w) (tasks w1) \<and>
        prefix (trace w) (trace w1) \<and>
        next_task w \<le> next_task w1 \<and>
        (\<forall>x \<in> set (tasks w1). x \<in> set (tasks w) \<or> next_task w \<le> fst x))"

text \<open>The message of the warning for a cron entry that is skipped.\<close>

definition invalid_cron_message :: "env \<Rightarrow> string \<Rightarrow> string" where
  "invalid_cron_message env event =
     ''Couldn't register cron hook. Provided cron is invalid: '' @
       (case REGEX_BETWEEN_PARENS env event of None \<Rightarrow> ''undefined'' | Some cron \<Rightarrow> cron)"

text \<open>A key of the form \<open>cron(...)\<close> whose expression is absent, empty or refused by
  \<open>validate\<close>.\<close>

definition invalid_cron :: "env \<Rightarrow> string \<Rightarrow> bool" where
  "invalid_cron env event \<longleftrightarrow>
     prefix ''cron('' event \<and>
     (case REGEX_BETWEEN_PARENS env event of
        None \<Rightarrow> True
      | Some cron \<Rightarrow> cron = [] \<or> \<not> validate env cron)"

text \<open>The module path of an extension, as both registrars compute it.\<close>

definition module_path :: "env \<Rightarrow> Extension \<Rightarrow> string" where
  "module_path env e = path_resolve env (path e) (entrypoint_or_empty e)"

text \<open>The entries a hook extension hands over, when its module loads and its registration
  function returns.\<close>

definition hook_entries :: "env \<Rightarrow> Extension \<Rightarrow> (string \<times> handler) list option" where
  "hook_entries env hook =
     (case require_hook env (module_path env hook) of
        Inl e \<Rightarrow> None
      | Inr hookInstance \<Rightarrow>
          (case getModuleDefault hookInstance of Inl e \<Rightarrow> None | Inr events \<Rightarrow> Some events))"

text \<open>An entry is registered: an event entry has its record and its subscription, a cron
  entry has a record of a live task that carries its expression and its handler.\<close>

definition entry_registered ::
  "env \<Rightarrow> string \<Rightarrow> string \<times> handler \<Rightarrow> ExtensionManager \<times> world \<Rightarrow> bool" where
  "entry_registered env p entry a \<longleftrightarrow>
     (case entry of (event, h) \<Rightarrow> case a of (s, w) \<Rightarrow>
        if prefix ''cron('' event then
          (\<exists>x \<in> set (tasks w). CronHook p (fst x) \<in> set (apiHooks s) \<and>
             REGEX_BETWEEN_PARENS env event = Some (fst (snd x)) \<and> snd (snd x) = h)
        else EventHook p event h \<in> set (apiHooks s) \<and> (event, h) \<in> set (listeners w))"

text \<open>The mount path of an endpoint extension whose module has loaded.\<close>

definition mount_path :: "Extension \<Rightarrow> EndpointConfig module \<Rightarrow> string" where
  "mount_path endpoint endpointInstance =
     ''/'' @ (case getModuleDefault endpointInstance of
               EndpointFunction r \<Rightarrow> name endpoint
             | EndpointObject i r \<Rightarrow> i)"

text \<open>The registration function of an endpoint module returns normally.\<close>

definition endpoint_registers :: "EndpointConfig module \<Rightarrow> bool" where
  "endpoint_registers endpointInstance \<longleftrightarrow>
     (case getModuleDefault endpointInstance of
        EndpointFunction r \<Rightarrow> r = Inr ()
      | EndpointObject i r \<Rightarrow> r = Inr ())"

text \<open>
  What the endpoint registrar adds for a list of endpoint extensions: on the router, the
  mount paths of those whose module loads and whose mount path the router accepts, in
  their order; in \<open>apiEndpoints\<close>, the module paths of those whose registration function
  returns as well.
\<close>

fun mounted_paths :: "env \<Rightarrow> Extension list \<Rightarrow> string list" where
  "mounted_paths env [] = []"
| "mounted_paths env (endpoint # endpoints) =
     (case require_endpoint env (module_path env endpoint) of
        Inl e \<Rightarrow> mounted_paths env endpoints
      | Inr m \<Rightarrow>
          (case router_use env (mount_path endpoint m) of
             Inl e \<Rightarrow> mounted_paths env endpoints
           | Inr u \<Rightarrow> mount_path endpoint m # mounted_paths env endpoints))"

fun recorded_endpoints :: "env \<Rightarrow> Extension list \<Rightarrow> ApiEndpoint list" where
  "recorded_endpoints env [] = []"
| "recorded_endpoints env (endpoint # endpoints) =
     (case require_endpoint env (module_path env endpoint) of
        Inl e \<Rightarrow> recorded_endpoints env endpoints
      | Inr m \<Rightarrow>
          (case router_use env (mount_path endpoint m) of
             Inl e \<Rightarrow> recorded_endpoints env endpoints
           | Inr u \<Rightarrow>
               if endpoint_registers m then
                 ApiEndpoint (module_path env endpoint) # recorded_endpoints env endpoints
               else recorded_endpoints env endpoints))"

text \<open>\<open>env.SERVE_APP ? EXTENSION_TYPES : API_EXTENSION_TYPES\<close> and the same choice for
  package types.\<close>

definition enabled_types :: "env \<Rightarrow> string list" where
  "enabled_types env = (if SERVE_APP env then EXTENSION_TYPES env else API_EXTENSION_TYPES env)"

definition enabled_package_types :: "env \<Rightarrow> string list" where
  "enabled_package_types env =
     (if SERVE_APP env then EXTENSION_PACKAGE_TYPES env else API_EXTENSION_PACKAGE_TYPES env)"

text \<open>The manager and the world when \<open>initialize\<close> has passed its guard and has run
  discovery and both registrars: lines 76 to 90.\<close>

definition registration_phase ::
  "env \<Rightarrow> bool \<Rightarrow> ExtensionManager \<Rightarrow> world \<Rightarrow> ExtensionManager \<times> world" where
  "registration_phase env sched s w =
     (case load_extensions env (s\<lparr>isScheduleHookEnabled := sched\<rparr>) w of (s1, w1) \<Rightarrow>
      case registerHooks env s1 w1 of (s2, w2) \<Rightarrow>
      registerEndpoints env s2 w2)"

text \<open>The bundler fails for one app extension type: \<open>rollup\<close>, \<open>bundle.generate\<close> or
  \<open>bundle.close\<close> throws.\<close>

definition bundler_fails :: "env \<Rightarrow> Extension list \<Rightarrow> (string \<times> string) list \<Rightarrow> string \<Rightarrow> bool" where
  "bundler_fails env exts sharedDepsMapping extensionType \<longleftrightarrow>
     (case rollup env (generateExtensionsEntry env extensionType exts)
             (map snd sharedDepsMapping) sharedDepsMapping of
        Inl e \<Rightarrow> True
      | Inr b \<Rightarrow>
          (case bundle_generate env b of
             Inl e \<Rightarrow> True
           | Inr code \<Rightarrow> (case bundle_close env b of Inl e \<Rightarrow> True | Inr u \<Rightarrow> False)))"

text \<open>Discovery fails: \<open>ensureExtensionDirs\<close>, \<open>getPackageExtensions\<close> or \<open>getLocalExtensions\<close>
  throws.\<close>

definition discovery_fails :: "env \<Rightarrow> bool" where
  "discovery_fails env \<longleftrightarrow>
     (case ensureExtensionDirs env (EXTENSIONS_PATH env) (enabled_types env) of
        Inl e \<Rightarrow> True
      | Inr u \<Rightarrow>
          (case getPackageExtensions env ''.'' (enabled_package_types env) of
             Inl e \<Rightarrow> True
           | Inr packageExtensions \<Rightarrow>
               (case getLocalExtensions env (EXTENSIONS_PATH env) (enabled_types env) of
                  Inl e \<Rightarrow> True
                | Inr localExtensions \<Rightarrow> False)))"

text \<open>The number of reload cycles started so far: \<open>reload\<close> logs this message when, and only
  when, it has passed its guard.\<close>

definition reload_cycles :: "world \<Rightarrow> nat" where
  "reload_cycles w = length (filter (\<lambda>c. c = LoggerInfo ''Reloading extensions'') (trace w))"

text \<open>The tasks and the subscriptions that a list of hook records stands for.\<close>

fun recorded_tasks :: "ApiHook list \<Rightarrow> task list" where
  "recorded_tasks [] = []"
| "recorded_tasks (CronHook p t # hooks) = t # recorded_tasks hooks"
| "recorded_tasks (EventHook p event h # hooks) = recorded_tasks hooks"

fun recorded_subscriptions :: "ApiHook list \<Rightarrow> (string \<times> handler) list" where
  "recorded_subscriptions [] = []"
| "recorded_subscriptions (CronHook p t # hooks) = recorded_subscriptions hooks"
| "recorded_subscriptions (EventHook p event h # hooks) = (event, h) # recorded_subscriptions hooks"

text \<open>Task names are given out in order: every recorded task and every live task has a name
  below the next one.\<close>

definition names_below :: "ExtensionManager \<times> world \<Rightarrow> bool" where
  "names_below a \<longleftrightarrow>
     (case a of (s, w) \<Rightarrow>
        (\<forall>t \<in> set (recorded_tasks (apiHooks s)). t < next_task w) \<and>
        (\<forall>x \<in> set (tasks w). fst x < next_task w))"

text \<open>
  The managers and worlds that sequences of lifecycle operations produce: a new manager,
  then any calls of \<open>initialize\<close>, \<open>reload\<close> and \<open>install\<close>, whatever the collaborators
  answer and whether the call returns or throws, with tasks firing in between.
\<close>

inductive reachable :: "ExtensionManager \<Rightarrow> world \<Rightarrow> bool" where
  created: "\<forall>x \<in> set (tasks w). fst x < next_task w \<Longrightarrow> reachable new_ExtensionManager w"
| initialized: "reachable s w \<Longrightarrow> initialize env sched s w = (r, s', w') \<Longrightarrow> reachable s' w'"
| reloaded: "reachable s w \<Longrightarrow> reload env s w = (r, s', w') \<Longrightarrow> reachable s' w'"
| installed: "reachable s w \<Longrightarrow> install env n s w = (r, s', w') \<Longrightarrow> reachable s' w'"
| fired: "reachable s w \<Longrightarrow> fire run t s w = (r, w') \<Longrightarrow> reachable s w'"

section \<open>Properties\<close>

subsection \<open>The collaborators' effects, field by field\<close>

lemma record_call_sel [simp]:
  "listeners (record_call c w) = listeners w"
  "tasks (record_call c w) = tasks w"
  "next_task (record_call c w) = next_task w"
  "trace (record_call c w) = trace w @ [c]"
  by (simp_all add: record_call_def)

lemma logger_sel [simp]:
  "listeners (logger_warn m w) = listeners w"
  "tasks (logger_warn m w) = tasks w"
  "next_task (logger_warn m w) = next_task w"
  "trace (logger_warn m w) = trace w @ [LoggerWarn m]"
  "listeners (logger_warn_error e w) = listeners w"
  "tasks (logger_warn_error e w) = tasks w"
  "next_task (logger_warn_error e w) = next_task w"
  "trace (logger_warn_error e w) = trace w @ [LoggerWarnError e]"
  "listeners (logger_info m w) = listeners w"
  "tasks (logger_info m w) = tasks w"
  "next_task (logger_info m w) = next_task w"
  "trace (logger_info m w) = trace w @ [LoggerInfo m]"
  "listeners (logger_error e w) = listeners w"
  "tasks (logger_error e w) = tasks w"
  "next_task (logger_error e w) = next_task w"
  "trace (logger_error e w) = trace w @ [LoggerError e]"
  by (simp_all add: logger_warn_def logger_warn_error_def logger_info_def logger_error_def)

lemma emitter_on_sel [simp]:
  "listeners (emitter_on ev h w) = listeners w @ [(ev, h)]"
  "tasks (emitter_on ev h w) = tasks w"
  "next_task (emitter_on ev h w) = next_task w"
  "trace (emitter_on ev h w) = trace w @ [CallEmitterOn ev h]"
  by (simp_all add: emitter_on_def)

lemma emitter_off_sel [simp]:
  "listeners (emitter_off ev h w) = remove1 (ev, h) (listeners w)"
  "tasks (emitter_off ev h w) = tasks w"
  "next_task (emitter_off ev h w) = next_task w"
  "trace (emitter_off ev h w) = trace w @ [CallEmitterOff ev h]"
  by (simp_all add: emitter_off_def)

lemma task_destroy_sel [simp]:
  "listeners (snd (task_destroy env t w)) = listeners w"
  "next_task (snd (task_destroy env t w)) = next_task w"
  "trace (snd (task_destroy env t w)) = trace w @ [CallTaskDestroy t]"
  by (simp_all add: task_destroy_def Let_def split: sum.splits)

lemma task_destroy_returns:
  "task_destroy env t w = (Inr u, w1) \<Longrightarrow> tasks w1 = filter (\<lambda>x. fst x \<noteq> t) (tasks w)"
  by (auto simp: task_destroy_def Let_def split: sum.splits)

lemma task_destroy_tasks: "set (tasks (snd (task_destroy env t w))) \<subseteq> set (tasks w)"
  by (auto simp: task_destroy_def Let_def split: sum.splits)

lemma schedule_sel [simp]:
  "fst (schedule c h w) = next_task w"
  "listeners (snd (schedule c h w)) = listeners w"
  "tasks (snd (schedule c h w)) = tasks w @ [(next_task w, c, h)]"
  "next_task (snd (schedule c h w)) = Suc (next_task w)"
  "trace (snd (schedule c h w)) = trace w @ [CallSchedule c (next_task w)]"
  by (simp_all add: schedule_def)

subsection \<open>Registration only adds\<close>

lemma grows_refl [simp]: "grows a a"
  by (auto simp: grows_def)

lemma grows_trans: "grows a b \<Longrightarrow> grows b c \<Longrightarrow> grows a c"
  unfolding grows_def
  by (cases a, cases b, cases c) (fastforce dest: set_mono_prefix)

lemma grows_world:
  assumes "prefix (listeners w) (listeners w1)" "tasks w1 = tasks w" "next_task w1 = next_task w"
    "prefix (trace w) (trace w1)"
  shows "grows (s, w) (s, w1)"
  using assms by (auto simp: grows_def)

lemma grows_log [simp]:
  "grows (s, w) (s, record_call c w)"
  "grows (s, w) (s, logger_warn m w)"
  "grows (s, w) (s, logger_warn_error e w)"
  "grows (s, w) (s, logger_info m w)"
  by (simp_all add: grows_world)

lemma register_event_grows: "grows (s, w) (register_event env p entry s w)"
  by (cases entry)
     (auto simp: register_event_def grows_def split: option.splits prod.splits,
      auto simp: schedule_def record_call_def)

lemma register_events_grows: "grows (s, w) (register_events env p entries s w)"
proof (induction entries arbitrary: s w)
  case Nil
  show ?case by simp
next
  case (Cons entry entries)
  obtain s1 w1 where step: "register_event env p entry s w = (s1, w1)"
    by (cases "register_event env p entry s w")
  have "grows (s, w) (s1, w1)"
    using register_event_grows [of s w env p entry] step by simp
  moreover have "grows (s1, w1) (register_events env p entries s1 w1)"
    by (rule Cons.IH)
  ultimately have "grows (s, w) (register_events env p entries s1 w1)"
    by (rule grows_trans)
  then show ?case
    using step by simp
qed

lemma registerHook_grows: "grows (s, w) (snd (registerHook env hook s w))"
proof -
  let ?p = "path_resolve env (path hook) (entrypoint_or_empty hook)"
  have a: "grows (s, w) (s, record_call (CallRegister ?p) (record_call (CallRequire ?p) w))"
    by (simp add: grows_world)
  have b: "grows (s, record_call (CallRegister ?p) (record_call (CallRequire ?p) w))
      (register_events env ?p evs s (record_call (CallRegister ?p) (record_call (CallRequire ?p) w)))" for evs
    by (rule register_events_grows)
  show ?thesis
    using a grows_trans [OF a b]
    by (auto simp: registerHook_def Let_def split: sum.splits prod.splits)
qed

lemma registerHooks_loop_grows: "grows (s, w) (registerHooks_loop env hooks s w)"
proof (induction hooks arbitrary: s w)
  case Nil
  show ?case by simp
next
  case (Cons hook hooks)
  obtain r s1 w1 where step: "registerHook env hook s w = (r, s1, w1)"
    by (cases "registerHook env hook s w")
  have g: "grows (s, w) (s1, w1)"
    using registerHook_grows [of s w env hook] step by simp
  show ?case
  proof (cases r)
    case (Inl error)
    let ?w = "logger_warn_error error
               (logger_warn (''Couldn't register hook '' @ [CHR 0x22] @ name hook @ [CHR 0x22]) w1)"
    have "grows (s1, w1) (s1, ?w)"
      by (simp add: grows_world)
    with g have "grows (s, w) (s1, ?w)"
      by (rule grows_trans)
    then have "grows (s, w) (registerHooks_loop env hooks s1 ?w)"
      using Cons.IH by (rule grows_trans)
    then show ?thesis
      using Inl step by simp
  next
    case (Inr u)
    have "grows (s, w) (registerHooks_loop env hooks s1 w1)"
      using g Cons.IH by (rule grows_trans)
    then show ?thesis
      using Inr step by simp
  qed
qed

lemma registerHooks_grows: "grows (s, w) (registerHooks env s w)"
  by (simp add: registerHooks_def registerHooks_loop_grows)

lemma registerEndpoint_grows: "grows (s, w) (snd (registerEndpoint env endpoint s w))"
  by (auto simp: registerEndpoint_def Let_def grows_def split: sum.splits EndpointConfig.splits)

lemma registerEndpoints_loop_grows: "grows (s, w) (registerEndpoints_loop env endpoints s w)"
proof (induction endpoints arbitrary: s w)
  case Nil
  show ?case by simp
next
  case (Cons endpoint endpoints)
  obtain r s1 w1 where step: "registerEndpoint env endpoint s w = (r, s1, w1)"
    by (cases "registerEndpoint env endpoint s w")
  have g: "grows (s, w) (s1, w1)"
    using registerEndpoint_grows [of s w env endpoint] step by simp
  show ?case
  proof (cases r)
    case (Inl error)
    let ?w = "logger_warn_error error
               (logger_warn (''Couldn't register endpoint '' @ [CHR 0x22] @ name endpoint @ [CHR 0x22]) w1)"
    have "grows (s1, w1) (s1, ?w)"
      by (simp add: grows_world)
    with g have "grows (s, w) (s1, ?w)"
      by (rule grows_trans)
    then have "grows (s, w) (registerEndpoints_loop env endpoints s1 ?w)"
      using Cons.IH by (rule grows_trans)
    then show ?thesis
      using Inl step by simp
  next
    case (Inr u)
    have "grows (s, w) (registerEndpoints_loop env endpoints s1 w1)"
      using g Cons.IH by (rule grows_trans)
    then show ?thesis
      using Inr step by simp
  qed
qed

lemma registerEndpoints_grows: "grows (s, w) (registerEndpoints env s w)"
  by (simp add: registerEndpoints_def registerEndpoints_loop_grows)

subsection \<open>The sample installation, evaluated\<close>

lemmas sample_defs = sample_env_def sample_world_def new_ExtensionManager_def
  hook_a_def hook_b_def hook_c_def endpoint_a_def endpoint_b_def

lemmas run_defs = initialize_def load_extensions_def getExtensions_def registerHooks_def
  registerHook_def register_event_def registerEndpoints_def registerEndpoint_def
  entrypoint_or_empty_def listExtensions_def record_call_def logger_warn_def logger_warn_error_def
  logger_info_def logger_error_def emitter_on_def emitter_off_def schedule_def task_destroy_def
  Let_def

lemmas teardown_defs = reload_def unregisterHooks_def unregisterEndpoints_def

lemma sample_active_eval:
  "\<exists>calls. sample_active =
     (\<lparr>isInitialized = True,
       extensions = [endpoint_b, hook_a, hook_b, hook_c, endpoint_a],
       appExtensions = [],
       apiHooks = [EventHook ''/h/a/i.js'' ''items.create'' 1, CronHook ''/h/a/i.js'' 0,
                   EventHook ''/h/a/i.js'' ''items.update'' 4, EventHook ''/h/c'' ''items.delete'' 5],
       apiEndpoints = [ApiEndpoint ''/e/b''],
       endpointRouter = [''/custom'', ''/ea''],
       isScheduleHookEnabled = True\<rparr>,
      \<lparr>listeners = [(''items.create'', 0), (''items.create'', 1), (''items.update'', 4),
                    (''items.delete'', 5)],
       tasks = [(0, ''0 0 * * *'', 2)],
       next_task = 1,
       trace = calls\<rparr>)"
  by (simp add: sample_active_def sample_defs run_defs)

lemma sample_active_state:
  "fst sample_active =
     \<lparr>isInitialized = True,
      extensions = [endpoint_b, hook_a, hook_b, hook_c, endpoint_a],
      appExtensions = [],
      apiHooks = [EventHook ''/h/a/i.js'' ''items.create'' 1, CronHook ''/h/a/i.js'' 0,
                  EventHook ''/h/a/i.js'' ''items.update'' 4, EventHook ''/h/c'' ''items.delete'' 5],
      apiEndpoints = [ApiEndpoint ''/e/b''],
      endpointRouter = [''/custom'', ''/ea''],
      isScheduleHookEnabled = True\<rparr>"
  using sample_active_eval by (auto simp: prod_eq_iff)

lemma sample_active_world:
  "listeners (snd sample_active) =
     [(''items.create'', 0), (''items.create'', 1), (''items.update'', 4), (''items.delete'', 5)]"
  "tasks (snd sample_active) = [(0, ''0 0 * * *'', 2)]"
  "next_task (snd sample_active) = 1"
  using sample_active_eval by (auto simp: prod_eq_iff)

lemma sample_events_active_eval:
  "\<exists>calls. sample_events_active =
     (\<lparr>isInitialized = True,
       extensions = [endpoint_b, hook_a, hook_b, hook_c, endpoint_a],
       appExtensions = [],
       apiHooks = [EventHook ''/h/a/i.js'' ''items.create'' 1,
                   EventHook ''/h/a/i.js'' ''items.update'' 4, EventHook ''/h/c'' ''items.delete'' 5],
       apiEndpoints = [ApiEndpoint ''/e/b''],
       endpointRouter = [''/custom'', ''/ea''],
       isScheduleHookEnabled = True\<rparr>,
      \<lparr>listeners = [(''items.create'', 0), (''items.create'', 1), (''items.update'', 4),
                    (''items.delete'', 5)],
       tasks = [],
       next_task = 0,
       trace = calls\<rparr>)"
  by (simp add: sample_events_active_def sample_env_events_def sample_defs run_defs)

lemma sample_events_active_state:
  "fst sample_events_active =
     \<lparr>isInitialized = True,
      extensions = [endpoint_b, hook_a, hook_b, hook_c, endpoint_a],
      appExtensions = [],
      apiHooks = [EventHook ''/h/a/i.js'' ''items.create'' 1,
                  EventHook ''/h/a/i.js'' ''items.update'' 4, EventHook ''/h/c'' ''items.delete'' 5],
      apiEndpoints = [ApiEndpoint ''/e/b''],
      endpointRouter = [''/custom'', ''/ea''],
      isScheduleHookEnabled = True\<rparr>"
  using sample_events_active_eval by (auto simp: prod_eq_iff)

lemma sample_events_active_world:
  "listeners (snd sample_events_active) =
     [(''items.create'', 0), (''items.create'', 1), (''items.update'', 4), (''items.delete'', 5)]"
  "tasks (snd sample_events_active) = []"
  "next_task (snd sample_events_active) = 0"
  using sample_events_active_eval by (auto simp: prod_eq_iff)

subsection \<open>The guard of initialize and the schedule flag\<close>

lemma initialize_guard:
  "isInitialized s \<Longrightarrow> initialize env sched s w = (Inr (), s\<lparr>isScheduleHookEnabled := sched\<rparr>, w)"
  by (simp add: initialize_def)

lemma cron_callback_returns: "fst (cron_callback run h s w) = Inr ()"
  by (simp add: cron_callback_def split: sum.splits)

lemma cron_callback_disabled:
  "\<not> isScheduleHookEnabled s \<Longrightarrow> cron_callback run h s w = (Inr (), w)"
  by (simp add: cron_callback_def)

lemma cron_callback_enabled:
  "isScheduleHookEnabled s \<Longrightarrow>
     trace (snd (cron_callback run h s w)) =
       trace w @ CallHandler h # (case run h of Inl error \<Rightarrow> [LoggerError error] | Inr u \<Rightarrow> [])"
  by (simp add: cron_callback_def split: sum.splits)

lemma cron_callback_frame:
  "listeners (snd (cron_callback run h s w)) = listeners w"
  "tasks (snd (cron_callback run h s w)) = tasks w"
  "next_task (snd (cron_callback run h s w)) = next_task w"
  by (simp_all add: cron_callback_def split: sum.splits)

lemma fire_tasks_disabled:
  "\<not> isScheduleHookEnabled s \<Longrightarrow> fire_tasks run t ts s w = (Inr (), w)"
  by (induction ts arbitrary: w) (auto simp: cron_callback_disabled)

lemma fire_tasks_returns: "fst (fire_tasks run t ts s w) = Inr ()"
proof (induction ts arbitrary: w)
  case Nil
  show ?case by simp
next
  case (Cons x ts)
  obtain t' c h where x: "x = (t', c, h)" by (cases x)
  obtain r w1 where cb: "cron_callback run h s w = (r, w1)" by (cases "cron_callback run h s w")
  have "r = Inr ()" using cron_callback_returns [of run h s w] cb by simp
  then show ?case using x cb Cons.IH by simp
qed

lemma fire_tasks_trace_mono: "set (trace w) \<subseteq> set (trace (snd (fire_tasks run t ts s w)))"
proof (induction ts arbitrary: w)
  case Nil
  show ?case by simp
next
  case (Cons x ts)
  obtain t' c h where x: "x = (t', c, h)" by (cases x)
  obtain r w1 where cb: "cron_callback run h s w = (r, w1)" by (cases "cron_callback run h s w")
  have r: "r = Inr ()" using cron_callback_returns [of run h s w] cb by simp
  have "set (trace w) \<subseteq> set (trace w1)"
    using cb by (auto simp: cron_callback_def split: if_splits sum.splits)
  then show ?case using x cb r Cons.IH [of w1] Cons.IH [of w] by auto
qed

lemma fire_tasks_enabled:
  "isScheduleHookEnabled s \<Longrightarrow> (t, c, h) \<in> set ts \<Longrightarrow>
     CallHandler h \<in> set (trace (snd (fire_tasks run t ts s w)))"
proof (induction ts arbitrary: w)
  case Nil
  then show ?case by simp
next
  case (Cons x ts)
  obtain t' c' h' where x: "x = (t', c', h')" by (cases x)
  obtain r w1 where cb: "cron_callback run h' s w = (r, w1)" by (cases "cron_callback run h' s w")
  have r: "r = Inr ()" using cron_callback_returns [of run h' s w] cb by simp
  show ?case
  proof (cases "x = (t, c, h)")
    case True
    have "CallHandler h \<in> set (trace w1)"
      using cron_callback_enabled [OF Cons.prems(1), of run h' w] cb x True by simp
    then show ?thesis
      using fire_tasks_trace_mono [of w1 run t ts s] x cb r True by auto
  next
    case False
    then have "(t, c, h) \<in> set ts" using Cons.prems(2) by simp
    then show ?thesis
      using Cons.IH [OF Cons.prems(1), of w1] Cons.IH [OF Cons.prems(1), of w] x cb r by auto
  qed
qed

text \<open>
  C2, as amended. A second \<open>initialize(options)\<close> on an initialized manager makes no call
  to any collaborator (no discovery, no registration, no bundling: the world with its list of
  calls is returned as it was) and returns the manager unchanged except for the field
  \<open>isScheduleHookEnabled\<close>, which takes the value of \<open>options.schedule\<close>.
\<close>

theorem initialize_twice_only_sets_schedule_flag:
  "isInitialized s \<Longrightarrow>
     initialize env sched s w = (Inr (), s\<lparr>isScheduleHookEnabled := sched\<rparr>, w)"
  by (rule initialize_guard)

theorem initialize_twice_only_sets_schedule_flag_witness:
  "isInitialized (fst sample_active) \<and>
   initialize sample_env False (fst sample_active) (snd sample_active) =
     (Inr (), (fst sample_active)\<lparr>isScheduleHookEnabled := False\<rparr>, snd sample_active)"
  using initialize_twice_only_sets_schedule_flag
          [where s = "fst sample_active" and env = sample_env and sched = False and w = "snd sample_active"]
  by (simp add: sample_active_state)

text \<open>
  C2 as stated fails: the sample installation is initialized with schedules enabled, and a
  second \<open>initialize({schedule: false})\<close> returns a manager that differs from the one it
  was called on.
\<close>

theorem initialize_twice_changes_state_counterexample:
  "isInitialized (fst sample_active) \<and>
   fst (snd (initialize sample_env False (fst sample_active) (snd sample_active))) \<noteq> fst sample_active"
proof -
  have init: "isInitialized (fst sample_active)"
    by (simp add: sample_active_state)
  have flag: "isScheduleHookEnabled (fst sample_active)"
    by (simp add: sample_active_state)
  have "\<not> isScheduleHookEnabled (fst (snd (initialize sample_env False (fst sample_active) (snd sample_active))))"
    by (simp add: initialize_guard [OF init])
  with flag have "fst (snd (initialize sample_env False (fst sample_active) (snd sample_active))) \<noteq> fst sample_active"
    by metis
  with init show ?thesis by simp
qed

text \<open>
  C10. On an initialized manager \<open>initialize({schedule: b})\<close> returns normally, sets
  \<open>isScheduleHookEnabled\<close> to \<open>b\<close> and leaves the extension list, the hook records, the
  endpoint records, the router, the bundle map, the initialized flag and the world as they
  were. From then on a firing task does nothing when \<open>b\<close> is false and calls the handler of
  every live task of that name when \<open>b\<close> is true: no reload is needed.
\<close>

theorem initialize_on_initialized_updates_schedule_flag:
  "isInitialized s \<Longrightarrow>
     (case initialize env b s w of (r, s', w') \<Rightarrow>
        r = Inr () \<and> isScheduleHookEnabled s' = b \<and>
        extensions s' = extensions s \<and> apiHooks s' = apiHooks s \<and>
        apiEndpoints s' = apiEndpoints s \<and> endpointRouter s' = endpointRouter s \<and>
        appExtensions s' = appExtensions s \<and> isInitialized s' = isInitialized s \<and> w' = w \<and>
        (\<not> b \<longrightarrow> (\<forall>run t. fire run t s' w' = (Inr (), w'))) \<and>
        (b \<longrightarrow> (\<forall>run t c h. (t, c, h) \<in> set (tasks w') \<longrightarrow>
                 fst (fire run t s' w') = Inr () \<and>
                 CallHandler h \<in> set (trace (snd (fire run t s' w'))))))"
  by (simp add: initialize_guard fire_def fire_tasks_disabled fire_tasks_returns fire_tasks_enabled)

theorem initialize_on_initialized_updates_schedule_flag_witness:
  "isInitialized (fst sample_active) \<and>
   (case initialize sample_env False (fst sample_active) (snd sample_active) of (r, s', w') \<Rightarrow>
      r = Inr () \<and> \<not> isScheduleHookEnabled s' \<and> apiHooks s' = apiHooks (fst sample_active) \<and>
      tasks w' = [(0, ''0 0 * * *'', 2)] \<and>
      fire (\<lambda>h. Inr ()) 0 s' w' = (Inr (), w')) \<and>
   (case initialize sample_env True (fst sample_active) (snd sample_active) of (r, s', w') \<Rightarrow>
      CallHandler 2 \<in> set (trace (snd (fire (\<lambda>h. Inr ()) 0 s' w'))))"
  using initialize_on_initialized_updates_schedule_flag
          [where s = "fst sample_active" and env = sample_env and b = False and w = "snd sample_active"]
    initialize_on_initialized_updates_schedule_flag
          [where s = "fst sample_active" and env = sample_env and b = True and w = "snd sample_active"]
  by (simp add: sample_active_state sample_active_world split: prod.splits)

subsection \<open>The cron callback\<close>

lemma fire_tasks_other:
  "\<forall>x \<in> set ts. fst x \<noteq> t \<Longrightarrow> fire_tasks run t (ts @ rest) s w = fire_tasks run t rest s w"
  by (induction ts) auto

lemma fire_tasks_single: "fire_tasks run t [(t, c, h)] s w = cron_callback run h s w"
proof -
  obtain r w1 where cb: "cron_callback run h s w = (r, w1)"
    by (cases "cron_callback run h s w")
  then have "r = Inr ()"
    using cron_callback_returns [of run h s w] by simp
  with cb show ?thesis by simp
qed

lemma register_event_valid_cron:
  assumes "prefix ''cron('' event" "REGEX_BETWEEN_PARENS env event = Some cron"
    "cron \<noteq> []" "validate env cron"
  shows "register_event env p (event, h) s w =
           (s\<lparr>apiHooks := apiHooks s @ [CronHook p (next_task w)]\<rparr>, snd (schedule cron h w))"
  using assms by (simp add: register_event_def schedule_def)

text \<open>
  C7. A valid cron entry creates one live task and records it. Whenever the callback of
  that task runs, it returns normally, whatever the handler does; it calls the handler
  exactly when \<open>isScheduleHookEnabled\<close> holds at that time and logs what the handler throws;
  with the flag off it does nothing at all, and in no case does it remove a task. Firing
  the created task runs this callback.
\<close>

theorem cron_callback_gated_and_isolated:
  assumes "prefix ''cron('' event" and "REGEX_BETWEEN_PARENS env event = Some cron"
    and "cron \<noteq> []" and "validate env cron"
  shows "(case register_event env p (event, h) s w of (s1, w1) \<Rightarrow>
            apiHooks s1 = apiHooks s @ [CronHook p (next_task w)] \<and>
            tasks w1 = tasks w @ [(next_task w, cron, h)] \<and>
            ((\<forall>x \<in> set (tasks w). fst x \<noteq> next_task w) \<longrightarrow>
               (\<forall>run s2. fire run (next_task w) s2 w1 = cron_callback run h s2 w1))) \<and>
         (\<forall>run s2 w2.
            (case cron_callback run h s2 w2 of (r, w3) \<Rightarrow>
               r = Inr () \<and> tasks w3 = tasks w2 \<and> listeners w3 = listeners w2 \<and>
               trace w3 = trace w2 @
                 (if isScheduleHookEnabled s2 then
                    CallHandler h # (case run h of Inl error \<Rightarrow> [LoggerError error] | Inr u \<Rightarrow> [])
                  else []) \<and>
               (\<not> isScheduleHookEnabled s2 \<longrightarrow> w3 = w2)))"
proof -
  have reg: "register_event env p (event, h) s w =
      (s\<lparr>apiHooks := apiHooks s @ [CronHook p (next_task w)]\<rparr>, snd (schedule cron h w))"
    using assms by (rule register_event_valid_cron)
  have fired: "fire run (next_task w) s2 (snd (schedule cron h w)) =
      cron_callback run h s2 (snd (schedule cron h w))"
    if "\<forall>x \<in> set (tasks w). fst x \<noteq> next_task w" for run s2
    using that by (simp add: fire_def fire_tasks_other fire_tasks_single del: fire_tasks.simps)
  have cb: "(case cron_callback run h s2 w2 of (r, w3) \<Rightarrow>
               r = Inr () \<and> tasks w3 = tasks w2 \<and> listeners w3 = listeners w2 \<and>
               trace w3 = trace w2 @
                 (if isScheduleHookEnabled s2 then
                    CallHandler h # (case run h of Inl error \<Rightarrow> [LoggerError error] | Inr u \<Rightarrow> [])
                  else []) \<and>
               (\<not> isScheduleHookEnabled s2 \<longrightarrow> w3 = w2))" for run s2 w2
    by (simp add: cron_callback_def split: sum.splits)
  show ?thesis
    using fired cb by (simp add: reg)
qed

theorem cron_callback_gated_and_isolated_witness:
  "prefix ''cron('' ''cron(0 0 * * *)'' \<and>
   REGEX_BETWEEN_PARENS sample_env ''cron(0 0 * * *)'' = Some ''0 0 * * *'' \<and>
   validate sample_env ''0 0 * * *'' \<and>
   tasks (snd (register_event sample_env ''/h/a/i.js'' (''cron(0 0 * * *)'', 2)
                 new_ExtensionManager sample_world)) = [(0, ''0 0 * * *'', 2)] \<and>
   cron_callback (\<lambda>h. Inl (Error ''thrown'')) 2 new_ExtensionManager sample_world =
     (Inr (), sample_world\<lparr>trace := [CallHandler 2, LoggerError (Error ''thrown'')]\<rparr>) \<and>
   cron_callback (\<lambda>h. Inl (Error ''thrown'')) 2
       (new_ExtensionManager\<lparr>isScheduleHookEnabled := False\<rparr>) sample_world =
     (Inr (), sample_world)"
  using cron_callback_gated_and_isolated
          [where event = "''cron(0 0 * * *)''" and env = sample_env and cron = "''0 0 * * *''"
             and p = "''/h/a/i.js''" and h = 2 and s = new_ExtensionManager and w = sample_world]
  by (simp add: sample_env_def sample_world_def new_ExtensionManager_def cron_callback_def
        register_event_def schedule_def logger_error_def record_call_def)

subsection \<open>The hook registrar\<close>

lemma register_event_invalid_cron:
  "invalid_cron env event \<Longrightarrow>
     register_event env p (event, h) s w = (s, logger_warn (invalid_cron_message env event) w)"
  by (auto simp: invalid_cron_def invalid_cron_message_def register_event_def split: option.splits)

lemma register_events_append:
  "register_events env p (xs @ ys) s w =
     (case register_events env p xs s w of (s1, w1) \<Rightarrow> register_events env p ys s1 w1)"
  by (induction xs arbitrary: s w) (auto split: prod.splits)

lemma register_event_registers:
  "\<not> invalid_cron env (fst entry) \<Longrightarrow>
     entry_registered env p entry (register_event env p entry s w)"
  by (cases entry)
     (auto simp: invalid_cron_def entry_registered_def register_event_def schedule_def
        record_call_def emitter_on_def split: option.splits)

lemma entry_registered_grows:
  "entry_registered env p entry a \<Longrightarrow> grows a b \<Longrightarrow> entry_registered env p entry b"
  unfolding entry_registered_def grows_def
  by (cases entry, cases a, cases b) (auto dest!: set_mono_prefix split: if_splits)

lemma register_events_registers:
  "entry \<in> set events \<Longrightarrow> \<not> invalid_cron env (fst entry) \<Longrightarrow>
     entry_registered env p entry (register_events env p events s w)"
proof (induction events arbitrary: s w)
  case Nil
  then show ?case by simp
next
  case (Cons x events)
  obtain s1 w1 where step: "register_event env p x s w = (s1, w1)"
    by (cases "register_event env p x s w")
  show ?case
  proof (cases "entry = x")
    case True
    have "entry_registered env p entry (s1, w1)"
      using register_event_registers [OF Cons.prems(2), of p s w] True step by simp
    then have "entry_registered env p entry (register_events env p events s1 w1)"
      using register_events_grows by (rule entry_registered_grows)
    then show ?thesis using step by simp
  next
    case False
    then have "entry \<in> set events" using Cons.prems(1) by simp
    then have "entry_registered env p entry (register_events env p events s1 w1)"
      using Cons.prems(2) by (rule Cons.IH)
    then show ?thesis using step by simp
  qed
qed

lemma registerHook_entries:
  "hook_entries env hook = Some events \<Longrightarrow>
     snd (registerHook env hook s w) =
       register_events env (module_path env hook) events s
         (record_call (CallRegister (module_path env hook))
            (record_call (CallRequire (module_path env hook)) w))"
  by (auto simp: hook_entries_def registerHook_def module_path_def Let_def
        split: sum.splits prod.splits)

lemma registerHook_registers:
  assumes "hook_entries env hook = Some events" "entry \<in> set events"
    "\<not> invalid_cron env (fst entry)"
  shows "entry_registered env (module_path env hook) entry (snd (registerHook env hook s w))"
  using register_events_registers [OF assms(2,3)] registerHook_entries [OF assms(1)]
  by simp

lemma registerHooks_loop_step:
  "\<exists>w1'. grows (snd (registerHook env hook s w)) (fst (snd (registerHook env hook s w)), w1') \<and>
     registerHooks_loop env (hook # hooks) s w =
       registerHooks_loop env hooks (fst (snd (registerHook env hook s w))) w1'"
proof -
  obtain r s1 w1 where step: "registerHook env hook s w = (r, s1, w1)"
    by (cases "registerHook env hook s w")
  show ?thesis
  proof (cases r)
    case (Inl error)
    then show ?thesis
      using step by (auto simp: grows_world intro!: exI)
  next
    case (Inr u)
    then show ?thesis
      using step by (auto intro!: exI [of _ w1])
  qed
qed

lemma registerHooks_loop_registers:
  assumes "hook_entries env hook = Some events" "entry \<in> set events"
    "\<not> invalid_cron env (fst entry)"
  shows "hook \<in> set hooks \<Longrightarrow>
     entry_registered env (module_path env hook) entry (registerHooks_loop env hooks s w)"
proof (induction hooks arbitrary: s w)
  case Nil
  then show ?case by simp
next
  case (Cons x hooks)
  obtain w1' where g: "grows (snd (registerHook env x s w)) (fst (snd (registerHook env x s w)), w1')"
    and eq: "registerHooks_loop env (x # hooks) s w =
       registerHooks_loop env hooks (fst (snd (registerHook env x s w))) w1'"
    using registerHooks_loop_step by blast
  show ?case
  proof (cases "hook = x")
    case True
    have "entry_registered env (module_path env hook) entry (snd (registerHook env x s w))"
      using registerHook_registers [OF assms] True by simp
    then have "entry_registered env (module_path env hook) entry (fst (snd (registerHook env x s w)), w1')"
      using g by (rule entry_registered_grows)
    then have "entry_registered env (module_path env hook) entry
        (registerHooks_loop env hooks (fst (snd (registerHook env x s w))) w1')"
      using registerHooks_loop_grows by (rule entry_registered_grows)
    then show ?thesis using eq by simp
  next
    case False
    then have "hook \<in> set hooks" using Cons.prems by simp
    then show ?thesis using Cons.IH eq by simp
  qed
qed

text \<open>
  C6. An entry whose key has the form \<open>cron(...)\<close> with an absent, empty or invalid
  expression only adds one warning to the log: no task is scheduled, nothing is recorded,
  nothing is subscribed and nothing is thrown. The loop goes on with the entries after it
  from the state the entries before it have left, and \<open>registerHooks\<close>, which cannot throw,
  registers every other entry of every hook extension whose module loads and whose
  registration function returns, whatever the other entries and extensions are.
\<close>

theorem invalid_cron_entry_is_skipped:
  assumes "invalid_cron env event"
  shows "register_event env p (event, h) s w = (s, logger_warn (invalid_cron_message env event) w) \<and>
         register_events env p (before @ (event, h) # after) s w =
           (case register_events env p before s w of
              (s1, w1) \<Rightarrow> register_events env p after s1 (logger_warn (invalid_cron_message env event) w1)) \<and>
         (\<forall>hook \<in> set (extensions s). \<forall>events entry.
            ext_type hook = ''hook'' \<longrightarrow> hook_entries env hook = Some events \<longrightarrow>
            entry \<in> set events \<longrightarrow> \<not> invalid_cron env (fst entry) \<longrightarrow>
            entry_registered env (module_path env hook) entry (registerHooks env s w))"
proof -
  have one: "register_event env p (event, h) s w = (s, logger_warn (invalid_cron_message env event) w)"
    using assms by (rule register_event_invalid_cron)
  have rest: "register_events env p (before @ (event, h) # after) s w =
           (case register_events env p before s w of
              (s1, w1) \<Rightarrow> register_events env p after s1 (logger_warn (invalid_cron_message env event) w1))"
    using assms by (simp add: register_events_append register_event_invalid_cron split: prod.splits)
  have others: "entry_registered env (module_path env hook) entry (registerHooks env s w)"
    if "hook \<in> set (extensions s)" "ext_type hook = ''hook''" "hook_entries env hook = Some events"
      "entry \<in> set events" "\<not> invalid_cron env (fst entry)" for hook events entry
    unfolding registerHooks_def
    using that by (intro registerHooks_loop_registers [of env hook events entry]) simp_all
  show ?thesis
    using one rest others by blast
qed

theorem invalid_cron_entry_is_skipped_witness:
  "invalid_cron sample_env ''cron(not-a-schedule)'' \<and>
   register_event sample_env ''/h/a/i.js'' (''cron(not-a-schedule)'', 3) new_ExtensionManager sample_world =
     (new_ExtensionManager,
      sample_world\<lparr>trace :=
        [LoggerWarn ''Couldn't register cron hook. Provided cron is invalid: not-a-schedule'']\<rparr>) \<and>
   hook_a \<in> set (extensions (fst sample_active)) \<and>
   hook_entries sample_env hook_a =
     Some [(''items.create'', 1), (''cron(0 0 * * *)'', 2), (''cron(not-a-schedule)'', 3),
           (''items.update'', 4)] \<and>
   entry_registered sample_env ''/h/a/i.js'' (''items.update'', 4)
     (registerHooks sample_env (fst sample_active) (snd sample_active)) \<and>
   hook_c \<in> set (extensions (fst sample_active)) \<and>
   hook_entries sample_env hook_c = Some [(''items.delete'', 5)] \<and>
   entry_registered sample_env ''/h/c'' (''items.delete'', 5)
     (registerHooks sample_env (fst sample_active) (snd sample_active))"
proof -
  have bad: "invalid_cron sample_env ''cron(not-a-schedule)''"
    by (simp add: invalid_cron_def sample_env_def)
  have a: "hook_a \<in> set (extensions (fst sample_active))"
    and c: "hook_c \<in> set (extensions (fst sample_active))"
    by (simp_all add: sample_active_state)
  have ea: "hook_entries sample_env hook_a =
     Some [(''items.create'', 1), (''cron(0 0 * * *)'', 2), (''cron(not-a-schedule)'', 3),
           (''items.update'', 4)]"
    and ec: "hook_entries sample_env hook_c = Some [(''items.delete'', 5)]"
    by (simp_all add: hook_entries_def module_path_def entrypoint_or_empty_def sample_env_def
          hook_a_def hook_c_def)
  have pa: "module_path sample_env hook_a = ''/h/a/i.js''"
    and pc: "module_path sample_env hook_c = ''/h/c''"
    by (simp_all add: module_path_def entrypoint_or_empty_def sample_env_def hook_a_def hook_c_def)
  have ta: "ext_type hook_a = ''hook''" and tc: "ext_type hook_c = ''hook''"
    by (simp_all add: hook_a_def hook_c_def)
  have ok: "\<not> invalid_cron sample_env ''items.update''" "\<not> invalid_cron sample_env ''items.delete''"
    by (simp_all add: invalid_cron_def)
  note reg = invalid_cron_entry_is_skipped
          [OF bad, where p = "''/h/a/i.js''" and h = 3 and s = "fst sample_active"
             and w = "snd sample_active" and before = "[]" and after = "[]"]
  note one = invalid_cron_entry_is_skipped
          [OF bad, where p = "''/h/a/i.js''" and h = 3 and s = new_ExtensionManager
             and w = sample_world and before = "[]" and after = "[]"]
  have r1: "entry_registered sample_env ''/h/a/i.js'' (''items.update'', 4)
     (registerHooks sample_env (fst sample_active) (snd sample_active))"
    using reg a ta ea ok(1) pa by (metis fst_conv list.set_intros(1,2))
  have r2: "entry_registered sample_env ''/h/c'' (''items.delete'', 5)
     (registerHooks sample_env (fst sample_active) (snd sample_active))"
    using reg c tc ec ok(2) pc by (metis fst_conv list.set_intros(1))
  have msg: "logger_warn (invalid_cron_message sample_env ''cron(not-a-schedule)'') sample_world =
      sample_world\<lparr>trace :=
        [LoggerWarn ''Couldn't register cron hook. Provided cron is invalid: not-a-schedule'']\<rparr>"
    by (simp add: invalid_cron_message_def logger_warn_def record_call_def sample_env_def
          sample_world_def)
  show ?thesis
    using bad one a c ea ec r1 r2 msg by simp
qed

subsection \<open>The endpoint registrar\<close>

lemma registerEndpoint_adds:
  "endpointRouter (fst (snd (registerEndpoint env endpoint s w))) =
     endpointRouter s @ mounted_paths env [endpoint] \<and>
   apiEndpoints (fst (snd (registerEndpoint env endpoint s w))) =
     apiEndpoints s @ recorded_endpoints env [endpoint]"
  by (auto simp: registerEndpoint_def module_path_def mount_path_def endpoint_registers_def Let_def
        split: sum.splits EndpointConfig.splits)

lemma registerEndpoints_loop_step:
  "\<exists>w1'. registerEndpoints_loop env (endpoint # endpoints) s w =
       registerEndpoints_loop env endpoints (fst (snd (registerEndpoint env endpoint s w))) w1'"
proof -
  obtain r s1 w1 where step: "registerEndpoint env endpoint s w = (r, s1, w1)"
    by (cases "registerEndpoint env endpoint s w")
  show ?thesis
    using step by (cases r) auto
qed

lemma mounted_paths_Cons:
  "mounted_paths env (endpoint # endpoints) =
     mounted_paths env [endpoint] @ mounted_paths env endpoints"
  by (simp split: sum.splits)

lemma recorded_endpoints_Cons:
  "recorded_endpoints env (endpoint # endpoints) =
     recorded_endpoints env [endpoint] @ recorded_endpoints env endpoints"
  by (simp split: sum.splits)

lemma registerEndpoints_loop_adds:
  "endpointRouter (fst (registerEndpoints_loop env endpoints s w)) =
     endpointRouter s @ mounted_paths env endpoints \<and>
   apiEndpoints (fst (registerEndpoints_loop env endpoints s w)) =
     apiEndpoints s @ recorded_endpoints env endpoints"
proof (induction endpoints arbitrary: s w)
  case Nil
  show ?case by simp
next
  case (Cons endpoint endpoints)
  let ?s1 = "fst (snd (registerEndpoint env endpoint s w))"
  obtain w1' where eq: "registerEndpoints_loop env (endpoint # endpoints) s w =
       registerEndpoints_loop env endpoints ?s1 w1'"
    using registerEndpoints_loop_step by blast
  have one: "endpointRouter ?s1 = endpointRouter s @ mounted_paths env [endpoint]"
    "apiEndpoints ?s1 = apiEndpoints s @ recorded_endpoints env [endpoint]"
    using registerEndpoint_adds [of env endpoint s w] by simp_all
  have "endpointRouter (fst (registerEndpoints_loop env endpoints ?s1 w1')) =
      endpointRouter s @ mounted_paths env (endpoint # endpoints)"
    using Cons.IH [of ?s1 w1'] one(1) mounted_paths_Cons [of env endpoint endpoints] by simp
  moreover have "apiEndpoints (fst (registerEndpoints_loop env endpoints ?s1 w1')) =
      apiEndpoints s @ recorded_endpoints env (endpoint # endpoints)"
    using Cons.IH [of ?s1 w1'] one(2) recorded_endpoints_Cons [of env endpoint endpoints] by simp
  ultimately show ?case
    using eq by simp
qed

lemma mounted_paths_member:
  assumes "require_endpoint env (module_path env endpoint) = Inr m"
    and "router_use env (mount_path endpoint m) = Inr ()"
  shows "endpoint \<in> set endpoints \<Longrightarrow>
     mount_path endpoint m \<in> set (mounted_paths env endpoints) \<and>
     (endpoint_registers m \<longrightarrow>
        ApiEndpoint (module_path env endpoint) \<in> set (recorded_endpoints env endpoints))"
proof (induction endpoints)
  case Nil
  then show ?case by simp
next
  case (Cons x endpoints)
  show ?case
  proof (cases "endpoint = x")
    case True
    then show ?thesis
      using assms by (simp split: sum.splits)
  next
    case False
    then have "endpoint \<in> set endpoints" using Cons.prems by simp
    then show ?thesis
      using Cons.IH by (simp split: sum.splits)
  qed
qed

text \<open>
  C9, as amended. \<open>registerEndpoints\<close>, which cannot throw, adds to the shared router
  exactly the mount paths of the endpoint extensions whose module loads and whose mount
  path the router accepts, in their order, and records exactly those among them whose
  registration function returns. So every such extension is mounted, whatever the other
  endpoint extensions and its own registration function do: at \<open>/\<close> followed by the name
  of the extension when the default export is a function, and at \<open>/\<close> followed by the
  \<open>id\<close> of the export when it is an object.
\<close>

theorem endpoint_mounted_under_its_name:
  "endpointRouter (fst (registerEndpoints env s w)) =
     endpointRouter s @
       mounted_paths env (filter (\<lambda>extension. ext_type extension = ''endpoint'') (extensions s)) \<and>
   apiEndpoints (fst (registerEndpoints env s w)) =
     apiEndpoints s @
       recorded_endpoints env
         (filter (\<lambda>extension. ext_type extension = ''endpoint'') (extensions s)) \<and>
   (\<forall>endpoint \<in> set (extensions s). \<forall>m.
      ext_type endpoint = ''endpoint'' \<longrightarrow>
      require_endpoint env (module_path env endpoint) = Inr m \<longrightarrow>
      router_use env (mount_path endpoint m) = Inr () \<longrightarrow>
        (case getModuleDefault m of
           EndpointFunction r \<Rightarrow> ''/'' @ name endpoint
         | EndpointObject i r \<Rightarrow> ''/'' @ i)
          \<in> set (mounted_paths env
                   (filter (\<lambda>extension. ext_type extension = ''endpoint'') (extensions s))) \<and>
        (endpoint_registers m \<longrightarrow>
           ApiEndpoint (module_path env endpoint)
             \<in> set (recorded_endpoints env
                      (filter (\<lambda>extension. ext_type extension = ''endpoint'') (extensions s)))))"
proof -
  let ?endpoints = "filter (\<lambda>extension. ext_type extension = ''endpoint'') (extensions s)"
  have adds: "endpointRouter (fst (registerEndpoints env s w)) =
       endpointRouter s @ mounted_paths env ?endpoints \<and>
     apiEndpoints (fst (registerEndpoints env s w)) =
       apiEndpoints s @ recorded_endpoints env ?endpoints"
    unfolding registerEndpoints_def by (rule registerEndpoints_loop_adds)
  have each: "(case getModuleDefault m of
           EndpointFunction r \<Rightarrow> ''/'' @ name endpoint
         | EndpointObject i r \<Rightarrow> ''/'' @ i) \<in> set (mounted_paths env ?endpoints) \<and>
        (endpoint_registers m \<longrightarrow>
           ApiEndpoint (module_path env endpoint) \<in> set (recorded_endpoints env ?endpoints))"
    if "endpoint \<in> set (extensions s)" "ext_type endpoint = ''endpoint''"
      "require_endpoint env (module_path env endpoint) = Inr m"
      "router_use env (mount_path endpoint m) = Inr ()" for endpoint m
  proof -
    have "endpoint \<in> set ?endpoints"
      using that(1,2) by simp
    then have "mount_path endpoint m \<in> set (mounted_paths env ?endpoints) \<and>
        (endpoint_registers m \<longrightarrow>
           ApiEndpoint (module_path env endpoint) \<in> set (recorded_endpoints env ?endpoints))"
      by (rule mounted_paths_member [OF that(3,4)])
    then show ?thesis
      by (simp add: mount_path_def split: EndpointConfig.splits)
  qed
  show ?thesis
    using adds each by blast
qed

lemma sample_paren_discovered_eval:
  "\<exists>w'. sample_paren_discovered =
     (new_ExtensionManager\<lparr>extensions := [endpoint_b, endpoint_c, endpoint_a]\<rparr>, w')"
  by (simp add: sample_paren_discovered_def sample_env_paren_def sample_env_def
        load_extensions_def getExtensions_def Let_def)

lemma sample_paren_discovered_state:
  "fst sample_paren_discovered =
     new_ExtensionManager\<lparr>extensions := [endpoint_b, endpoint_c, endpoint_a]\<rparr>"
  using sample_paren_discovered_eval by (auto simp: prod_eq_iff)

theorem endpoint_mounted_under_its_name_witness:
  "endpoint_a \<in> set (extensions (fst sample_paren_discovered)) \<and>
   ext_type endpoint_a = ''endpoint'' \<and>
   require_endpoint sample_env_paren (module_path sample_env_paren endpoint_a) =
     Inr (Exports (EndpointFunction (Inl (Error ''ea'')))) \<and>
   router_use sample_env_paren ''/ea'' = Inr () \<and>
   endpoint_b \<in> set (extensions (fst sample_paren_discovered)) \<and>
   require_endpoint sample_env_paren (module_path sample_env_paren endpoint_b) =
     Inr (DefaultExport (EndpointObject ''custom'' (Inr ()))) \<and>
   router_use sample_env_paren ''/custom'' = Inr () \<and>
   endpointRouter (fst sample_paren_discovered) = [] \<and>
   endpointRouter (fst (registerEndpoints sample_env_paren (fst sample_paren_discovered)
                          (snd sample_paren_discovered))) = [''/custom'', ''/ea''] \<and>
   apiEndpoints (fst (registerEndpoints sample_env_paren (fst sample_paren_discovered)
                        (snd sample_paren_discovered))) = [ApiEndpoint ''/e/b'']"
proof -
  have ext: "extensions (fst sample_paren_discovered) = [endpoint_b, endpoint_c, endpoint_a]"
    "endpointRouter (fst sample_paren_discovered) = []"
    "apiEndpoints (fst sample_paren_discovered) = []"
    by (simp_all add: sample_paren_discovered_state new_ExtensionManager_def)
  have types: "ext_type endpoint_a = ''endpoint''" "ext_type endpoint_b = ''endpoint''"
    "ext_type endpoint_c = ''endpoint''"
    by (simp_all add: endpoint_a_def endpoint_b_def endpoint_c_def)
  have paths: "module_path sample_env_paren endpoint_a = ''/e/a''"
    "module_path sample_env_paren endpoint_b = ''/e/b''"
    "module_path sample_env_paren endpoint_c = ''/e/c''"
    by (simp_all add: module_path_def entrypoint_or_empty_def sample_env_paren_def sample_env_def
          endpoint_a_def endpoint_b_def endpoint_c_def)
  have mods: "require_endpoint sample_env_paren ''/e/a'' =
      Inr (Exports (EndpointFunction (Inl (Error ''ea''))))"
    "require_endpoint sample_env_paren ''/e/b'' =
      Inr (DefaultExport (EndpointObject ''custom'' (Inr ())))"
    "require_endpoint sample_env_paren ''/e/c'' = Inr (Exports (EndpointFunction (Inr ())))"
    by (simp_all add: sample_env_paren_def sample_env_def)
  have uses: "router_use sample_env_paren ''/ea'' = Inr ()"
    "router_use sample_env_paren ''/custom'' = Inr ()"
    "router_use sample_env_paren ''/e('' = Inl (Error ''SyntaxError: Unterminated group'')"
    by (simp_all add: sample_env_paren_def sample_env_def)
  have names: "name endpoint_a = ''ea''" "name endpoint_c = ''e(''"
    by (simp_all add: endpoint_a_def endpoint_c_def)
  show ?thesis
    using endpoint_mounted_under_its_name
            [where env = sample_env_paren and s = "fst sample_paren_discovered"
               and w = "snd sample_paren_discovered"]
      ext types paths mods uses names
    by (simp add: mount_path_def endpoint_registers_def)
qed

text \<open>
  C9 as stated fails. The sample installation has an endpoint extension named \<open>e(\<close> whose
  module loads and exports a function. \<open>router.use\<close> throws for the mount path \<open>/e(\<close>, the
  throw is caught and logged, and after \<open>initialize()\<close> on a new manager the router has no
  mount path for this extension.
\<close>

theorem endpoint_not_mounted_counterexample:
  "endpoint_c \<in> set (extensions (fst (snd (initialize sample_env_paren True new_ExtensionManager sample_world)))) \<and>
   ext_type endpoint_c = ''endpoint'' \<and> name endpoint_c = ''e('' \<and>
   require_endpoint sample_env_paren (module_path sample_env_paren endpoint_c) =
     Inr (Exports (EndpointFunction (Inr ()))) \<and>
   fst (initialize sample_env_paren True new_ExtensionManager sample_world) = Inr () \<and>
   endpointRouter (fst (snd (initialize sample_env_paren True new_ExtensionManager sample_world))) =
     [''/custom'', ''/ea''] \<and>
   ''/e('' \<notin> set (endpointRouter
      (fst (snd (initialize sample_env_paren True new_ExtensionManager sample_world))))"
proof -
  have "\<exists>w'. initialize sample_env_paren True new_ExtensionManager sample_world =
      (Inr (),
       \<lparr>isInitialized = True,
        extensions = [endpoint_b, endpoint_c, endpoint_a],
        appExtensions = [], apiHooks = [],
        apiEndpoints = [ApiEndpoint ''/e/b''],
        endpointRouter = [''/custom'', ''/ea''],
        isScheduleHookEnabled = True\<rparr>, w')"
    by (simp add: sample_env_paren_def endpoint_c_def sample_defs run_defs)
  moreover have "ext_type endpoint_c = ''endpoint''" "name endpoint_c = ''e(''"
    "require_endpoint sample_env_paren (module_path sample_env_paren endpoint_c) =
       Inr (Exports (EndpointFunction (Inr ())))"
    by (simp_all add: module_path_def entrypoint_or_empty_def sample_env_paren_def sample_env_def
          endpoint_c_def)
  ultimately show ?thesis
    by auto
qed

subsection \<open>Discovery and the extension list\<close>

lemma load_extensions_found:
  assumes "ensureExtensionDirs env (EXTENSIONS_PATH env) (enabled_types env) = Inr ()"
    and "getPackageExtensions env ''.'' (enabled_package_types env) = Inr packageExtensions"
    and "getLocalExtensions env (EXTENSIONS_PATH env) (enabled_types env) = Inr localExtensions"
  shows "fst (load_extensions env s w) = s\<lparr>extensions := packageExtensions @ localExtensions\<rparr>"
  using assms
  by (simp add: load_extensions_def getExtensions_def enabled_types_def enabled_package_types_def
        Let_def)

lemma grows_extensions: "grows a b \<Longrightarrow> extensions (fst b) = extensions (fst a)"
  unfolding grows_def by (cases a, cases b) simp

lemma registration_phase_extensions:
  "extensions (fst (registration_phase env sched s w)) =
     extensions (fst (load_extensions env (s\<lparr>isScheduleHookEnabled := sched\<rparr>) w))"
proof -
  obtain s1 w1 where l: "load_extensions env (s\<lparr>isScheduleHookEnabled := sched\<rparr>) w = (s1, w1)"
    by (cases "load_extensions env (s\<lparr>isScheduleHookEnabled := sched\<rparr>) w")
  obtain s2 w2 where h: "registerHooks env s1 w1 = (s2, w2)"
    by (cases "registerHooks env s1 w1")
  have "grows (s1, w1) (s2, w2)"
    using registerHooks_grows [of s1 w1 env] h by simp
  moreover have "grows (s2, w2) (registerEndpoints env s2 w2)"
    by (rule registerEndpoints_grows)
  ultimately have "grows (s1, w1) (registerEndpoints env s2 w2)"
    by (rule grows_trans)
  then show ?thesis
    using l h by (simp add: registration_phase_def grows_extensions)
qed

lemma initialize_phases:
  "\<not> isInitialized s \<Longrightarrow>
     initialize env sched s w =
       (case registration_phase env sched s w of (s3, w3) \<Rightarrow>
          if SERVE_APP env then
            (case generateExtensionBundles env s3 w3 of
               (Inl e, w4) \<Rightarrow> (Inl e, s3, w4)
             | (Inr bundles, w4) \<Rightarrow>
                 (Inr (), s3\<lparr>appExtensions := bundles, isInitialized := True\<rparr>,
                  if length (listExtensions None s3) > 0 then
                    logger_info (''Loaded extensions: '' @ join '', '' (listExtensions None s3)) w4
                  else w4))
          else
            (Inr (), s3\<lparr>isInitialized := True\<rparr>,
             if length (listExtensions None s3) > 0 then
               logger_info (''Loaded extensions: '' @ join '', '' (listExtensions None s3)) w3
             else w3))"
  by (simp add: initialize_def registration_phase_def listExtensions_def Let_def
        split: prod.splits sum.splits)

lemma initialize_extensions:
  "\<not> isInitialized s \<Longrightarrow>
     extensions (fst (snd (initialize env sched s w))) =
       extensions (fst (registration_phase env sched s w))"
  by (simp add: initialize_phases split: prod.splits sum.splits)

text \<open>
  C8. When discovery succeeds, with \<open>packageExtensions\<close> from the packages and
  \<open>localExtensions\<close> from the extension directory, then after \<open>initialize\<close> the call
  \<open>listExtensions()\<close> gives the names of the package extensions followed by the names of the
  local ones, and \<open>listExtensions(type)\<close> gives, in the same order, the names of those of
  that type. \<open>listExtensions\<close> is a function of the manager that returns a list only.
\<close>

theorem listExtensions_after_initialize:
  assumes "\<not> isInitialized s"
    and "ensureExtensionDirs env (EXTENSIONS_PATH env) (enabled_types env) = Inr ()"
    and "getPackageExtensions env ''.'' (enabled_package_types env) = Inr packageExtensions"
    and "getLocalExtensions env (EXTENSIONS_PATH env) (enabled_types env) = Inr localExtensions"
    and "initialize env sched s w = (Inr (), s', w')"
  shows "listExtensions None s' = map name (packageExtensions @ localExtensions) \<and>
         (\<forall>t. listExtensions (Some t) s' =
                map name (filter (\<lambda>extension. ext_type extension = t)
                            (packageExtensions @ localExtensions)))"
proof -
  have "extensions s' = extensions (fst (registration_phase env sched s w))"
    using initialize_extensions [OF assms(1), of env sched w] assms(5) by simp
  also have "\<dots> = extensions (fst (load_extensions env (s\<lparr>isScheduleHookEnabled := sched\<rparr>) w))"
    by (rule registration_phase_extensions)
  also have "\<dots> = packageExtensions @ localExtensions"
    using load_extensions_found [OF assms(2,3,4)] by simp
  finally show ?thesis
    by (simp add: listExtensions_def)
qed

theorem listExtensions_after_initialize_witness:
  "\<not> isInitialized new_ExtensionManager \<and>
   ensureExtensionDirs sample_env (EXTENSIONS_PATH sample_env) (enabled_types sample_env) = Inr () \<and>
   getPackageExtensions sample_env ''.'' (enabled_package_types sample_env) = Inr [endpoint_b] \<and>
   getLocalExtensions sample_env (EXTENSIONS_PATH sample_env) (enabled_types sample_env) =
     Inr [hook_a, hook_b, hook_c, endpoint_a] \<and>
   fst (initialize sample_env True new_ExtensionManager sample_world) = Inr () \<and>
   listExtensions None (fst sample_active) = [''eb'', ''ha'', ''hb'', ''hc'', ''ea''] \<and>
   listExtensions (Some ''hook'') (fst sample_active) = [''ha'', ''hb'', ''hc''] \<and>
   listExtensions (Some ''endpoint'') (fst sample_active) = [''eb'', ''ea'']"
proof -
  have n: "\<not> isInitialized new_ExtensionManager"
    by (simp add: new_ExtensionManager_def)
  have d: "ensureExtensionDirs sample_env (EXTENSIONS_PATH sample_env) (enabled_types sample_env) = Inr ()"
    and p: "getPackageExtensions sample_env ''.'' (enabled_package_types sample_env) = Inr [endpoint_b]"
    and l: "getLocalExtensions sample_env (EXTENSIONS_PATH sample_env) (enabled_types sample_env) =
     Inr [hook_a, hook_b, hook_c, endpoint_a]"
    by (simp_all add: sample_env_def)
  have r: "fst (initialize sample_env True new_ExtensionManager sample_world) = Inr ()"
    using n by (simp add: initialize_phases sample_env_def split: prod.splits)
  then have i: "initialize sample_env True new_ExtensionManager sample_world =
      (Inr (), fst sample_active, snd sample_active)"
    by (simp add: sample_active_def prod_eq_iff)
  show ?thesis
    using listExtensions_after_initialize [OF n d p l i] n d p l r
    by (simp add: hook_a_def hook_b_def hook_c_def endpoint_a_def endpoint_b_def)
qed

subsection \<open>The bundle generator\<close>

lemma getSharedDepsMapping_loop_frame:
  "listeners (snd (getSharedDepsMapping_loop env appDir deps m w)) = listeners w \<and>
   tasks (snd (getSharedDepsMapping_loop env appDir deps m w)) = tasks w \<and>
   next_task (snd (getSharedDepsMapping_loop env appDir deps m w)) = next_task w"
  by (induction deps arbitrary: m w) (auto split: option.splits)

lemma getSharedDepsMapping_frame:
  "listeners (snd (getSharedDepsMapping env deps w)) = listeners w \<and>
   tasks (snd (getSharedDepsMapping env deps w)) = tasks w \<and>
   next_task (snd (getSharedDepsMapping env deps w)) = next_task w"
proof (cases "readdir_app_dist env")
  case (Inl e)
  then show ?thesis by (simp add: getSharedDepsMapping_def)
next
  case (Inr appDir)
  obtain m w1 where l: "getSharedDepsMapping_loop env appDir deps [] (record_call CallReaddir w) = (m, w1)"
    by (cases "getSharedDepsMapping_loop env appDir deps [] (record_call CallReaddir w)")
  then show ?thesis
    using Inr getSharedDepsMapping_loop_frame [of env appDir deps "[]" "record_call CallReaddir w"]
    by (simp add: getSharedDepsMapping_def)
qed

lemma generateExtensionBundles_loop_frame:
  "listeners (snd (generateExtensionBundles_loop env exts sdm types bundles w)) = listeners w \<and>
   tasks (snd (generateExtensionBundles_loop env exts sdm types bundles w)) = tasks w \<and>
   next_task (snd (generateExtensionBundles_loop env exts sdm types bundles w)) = next_task w"
  by (induction types arbitrary: bundles w) (auto simp: Let_def split: sum.splits)

lemma generateExtensionBundles_frame:
  "listeners (snd (generateExtensionBundles env s w)) = listeners w \<and>
   tasks (snd (generateExtensionBundles env s w)) = tasks w \<and>
   next_task (snd (generateExtensionBundles env s w)) = next_task w"
proof -
  obtain r w1 where g: "getSharedDepsMapping env (APP_SHARED_DEPS env) w = (r, w1)"
    by (cases "getSharedDepsMapping env (APP_SHARED_DEPS env) w")
  have f: "listeners w1 = listeners w \<and> tasks w1 = tasks w \<and> next_task w1 = next_task w"
    using getSharedDepsMapping_frame [of env "APP_SHARED_DEPS env" w] g by simp
  show ?thesis
  proof (cases r)
    case (Inl e)
    then show ?thesis using g f by (simp add: generateExtensionBundles_def)
  next
    case (Inr sdm)
    then show ?thesis
      using g f generateExtensionBundles_loop_frame [of env "extensions s" sdm "APP_EXTENSION_TYPES env" "[]" w1]
      by (simp add: generateExtensionBundles_def)
  qed
qed

lemma generateExtensionBundles_loop_fails:
  "t \<in> set types \<Longrightarrow> bundler_fails env exts sdm t \<Longrightarrow>
     isl (fst (generateExtensionBundles_loop env exts sdm types bundles w))"
proof (induction types arbitrary: bundles w)
  case Nil
  then show ?case by simp
next
  case (Cons x types)
  show ?case
  proof (cases "bundler_fails env exts sdm x")
    case True
    then show ?thesis
      by (auto simp: bundler_fails_def Let_def split: sum.splits)
  next
    case False
    then have "t \<in> set types" using Cons.prems by auto
    then show ?thesis
      using Cons.IH Cons.prems(2) by (auto simp: Let_def split: sum.splits)
  qed
qed



lemmas bundle_defs = generateExtensionBundles_def getSharedDepsMapping_def dep_slug_def
  file_stem_def

lemma sample_half_eval:
  "\<exists>calls. sample_half =
     (\<lparr>isInitialized = False,
       extensions = [endpoint_b, hook_a, hook_b, hook_c, endpoint_a],
       appExtensions = [],
       apiHooks = [EventHook ''/h/a/i.js'' ''items.create'' 1, CronHook ''/h/a/i.js'' 0,
                   EventHook ''/h/a/i.js'' ''items.update'' 4, EventHook ''/h/c'' ''items.delete'' 5],
       apiEndpoints = [ApiEndpoint ''/e/b''],
       endpointRouter = [''/custom'', ''/ea''],
       isScheduleHookEnabled = True\<rparr>,
      \<lparr>listeners = [(''items.create'', 0), (''items.create'', 1), (''items.update'', 4),
                    (''items.delete'', 5)],
       tasks = [(0, ''0 0 * * *'', 2)],
       next_task = 1,
       trace = calls\<rparr>)"
  by (simp add: sample_half_def sample_env_app_broken_def sample_defs run_defs bundle_defs)

lemma sample_half_state:
  "fst sample_half =
     \<lparr>isInitialized = False,
      extensions = [endpoint_b, hook_a, hook_b, hook_c, endpoint_a],
      appExtensions = [],
      apiHooks = [EventHook ''/h/a/i.js'' ''items.create'' 1, CronHook ''/h/a/i.js'' 0,
                  EventHook ''/h/a/i.js'' ''items.update'' 4, EventHook ''/h/c'' ''items.delete'' 5],
      apiEndpoints = [ApiEndpoint ''/e/b''],
      endpointRouter = [''/custom'', ''/ea''],
      isScheduleHookEnabled = True\<rparr>"
  using sample_half_eval by (auto simp: prod_eq_iff)

lemma sample_half_world:
  "listeners (snd sample_half) =
     [(''items.create'', 0), (''items.create'', 1), (''items.update'', 4), (''items.delete'', 5)]"
  "tasks (snd sample_half) = [(0, ''0 0 * * *'', 2)]"
  "next_task (snd sample_half) = 1"
  using sample_half_eval by (auto simp: prod_eq_iff)


subsection \<open>Failing discovery\<close>

lemma grows_fields:
  "grows a b \<Longrightarrow>
     isInitialized (fst b) = isInitialized (fst a) \<and> extensions (fst b) = extensions (fst a) \<and>
     appExtensions (fst b) = appExtensions (fst a) \<and>
     isScheduleHookEnabled (fst b) = isScheduleHookEnabled (fst a)"
  unfolding grows_def by (cases a, cases b) simp

lemma grows_tasks:
  "grows a b \<Longrightarrow> x \<in> set (tasks (snd b)) \<Longrightarrow>
     x \<in> set (tasks (snd a)) \<or> next_task (snd a) \<le> fst x"
  unfolding grows_def by (cases a, cases b) auto

lemma registration_phase_grows:
  "grows (load_extensions env (s\<lparr>isScheduleHookEnabled := sched\<rparr>) w)
     (registration_phase env sched s w)"
proof -
  obtain s1 w1 where l: "load_extensions env (s\<lparr>isScheduleHookEnabled := sched\<rparr>) w = (s1, w1)"
    by (cases "load_extensions env (s\<lparr>isScheduleHookEnabled := sched\<rparr>) w")
  obtain s2 w2 where h: "registerHooks env s1 w1 = (s2, w2)"
    by (cases "registerHooks env s1 w1")
  have "grows (s1, w1) (s2, w2)"
    using registerHooks_grows [of s1 w1 env] h by simp
  moreover have "grows (s2, w2) (registerEndpoints env s2 w2)"
    by (rule registerEndpoints_grows)
  ultimately have "grows (s1, w1) (registerEndpoints env s2 w2)"
    by (rule grows_trans)
  then show ?thesis
    using l h by (simp add: registration_phase_def)
qed

lemma load_extensions_caught:
  assumes "discovery_fails env"
  shows "\<exists>err calls. load_extensions env s w =
           (s, w\<lparr>trace := trace w @ calls @
                            [LoggerWarn ''Couldn't load extensions'', LoggerWarnError err]\<rparr>)"
proof (cases "ensureExtensionDirs env (EXTENSIONS_PATH env) (enabled_types env)")
  case (Inl err)
  then have "load_extensions env s w =
      (s, w\<lparr>trace := trace w @ [CallEnsureExtensionDirs (EXTENSIONS_PATH env) (enabled_types env)] @
                            [LoggerWarn ''Couldn't load extensions'', LoggerWarnError err]\<rparr>)"
    by (simp add: load_extensions_def enabled_types_def logger_warn_def logger_warn_error_def
          record_call_def Let_def)
  then show ?thesis by blast
next
  case dirs: (Inr u)
  show ?thesis
  proof (cases "getPackageExtensions env ''.'' (enabled_package_types env)")
    case (Inl err)
    then have "load_extensions env s w =
      (s, w\<lparr>trace := trace w @
               [CallEnsureExtensionDirs (EXTENSIONS_PATH env) (enabled_types env),
                CallGetPackageExtensions ''.'' (enabled_package_types env)] @
               [LoggerWarn ''Couldn't load extensions'', LoggerWarnError err]\<rparr>)"
      using dirs
      by (simp add: load_extensions_def getExtensions_def enabled_types_def
            enabled_package_types_def logger_warn_def logger_warn_error_def record_call_def
            Let_def)
    then show ?thesis by blast
  next
    case pkg: (Inr packageExtensions)
    then obtain err where
      loc: "getLocalExtensions env (EXTENSIONS_PATH env) (enabled_types env) = Inl err"
      using assms dirs by (auto simp: discovery_fails_def split: sum.splits)
    then have "load_extensions env s w =
      (s, w\<lparr>trace := trace w @
               [CallEnsureExtensionDirs (EXTENSIONS_PATH env) (enabled_types env),
                CallGetPackageExtensions ''.'' (enabled_package_types env),
                CallGetLocalExtensions (EXTENSIONS_PATH env) (enabled_types env)] @
               [LoggerWarn ''Couldn't load extensions'', LoggerWarnError err]\<rparr>)"
      using dirs pkg
      by (simp add: load_extensions_def getExtensions_def enabled_types_def
            enabled_package_types_def logger_warn_def logger_warn_error_def record_call_def
            Let_def)
    then show ?thesis by blast
  qed
qed

lemma registration_phase_no_extensions:
  assumes "load_extensions env (s\<lparr>isScheduleHookEnabled := sched\<rparr>) w =
             (s\<lparr>isScheduleHookEnabled := sched\<rparr>, w1)"
    and "extensions s = []"
  shows "registration_phase env sched s w = (s\<lparr>isScheduleHookEnabled := sched\<rparr>, w1)"
  using assms by (simp add: registration_phase_def registerHooks_def registerEndpoints_def)

text \<open>
  C3, as amended. When discovery throws in an \<open>initialize\<close> that has passed its guard, the
  error is caught and logged as a warning and the extension list keeps the value it had
  before the call. Both registrars then run from that list; when it is empty (as on a new
  manager) they register nothing: records, router, subscriptions and tasks stay as they
  were. The failure of discovery is never thrown: \<open>initialize\<close> returns normally and sets
  \<open>isInitialized\<close>, except that in app-serving mode a throw of the bundle generation still
  leaves it.
\<close>

theorem discovery_failure_keeps_extension_list:
  assumes "\<not> isInitialized s" and "discovery_fails env"
  shows "(\<exists>err calls. load_extensions env (s\<lparr>isScheduleHookEnabled := sched\<rparr>) w =
            (s\<lparr>isScheduleHookEnabled := sched\<rparr>,
             w\<lparr>trace := trace w @ calls @
                            [LoggerWarn ''Couldn't load extensions'', LoggerWarnError err]\<rparr>)) \<and>
         (case initialize env sched s w of (r, s', w') \<Rightarrow>
            extensions s' = extensions s \<and>
            (r = Inr ()) = (\<not> SERVE_APP env \<or>
               \<not> isl (fst (generateExtensionBundles env (fst (registration_phase env sched s w))
                              (snd (registration_phase env sched s w))))) \<and>
            isInitialized s' = (r = Inr ()) \<and>
            (extensions s = [] \<longrightarrow>
               apiHooks s' = apiHooks s \<and> apiEndpoints s' = apiEndpoints s \<and>
               endpointRouter s' = endpointRouter s \<and>
               listeners w' = listeners w \<and> tasks w' = tasks w))"
proof -
  let ?s0 = "s\<lparr>isScheduleHookEnabled := sched\<rparr>"
  obtain err calls where caught: "load_extensions env ?s0 w =
      (?s0, w\<lparr>trace := trace w @ calls @
                  [LoggerWarn ''Couldn't load extensions'', LoggerWarnError err]\<rparr>)"
    using load_extensions_caught [OF assms(2)] by blast
  obtain s3 w3 where phase: "registration_phase env sched s w = (s3, w3)"
    by (cases "registration_phase env sched s w")
  have ext: "extensions s3 = extensions s"
    using registration_phase_extensions [of env sched s w] phase caught by simp
  have init: "isInitialized s3 = isInitialized s"
    using grows_fields [OF registration_phase_grows [where env = env and s = s and sched = sched and w = w]] phase caught by simp
  have none: "s3 = ?s0 \<and> listeners w3 = listeners w \<and> tasks w3 = tasks w" if "extensions s = []"
    using registration_phase_no_extensions [OF caught that] phase by simp
  obtain r w4 where b: "generateExtensionBundles env s3 w3 = (r, w4)"
    by (cases "generateExtensionBundles env s3 w3")
  have frame: "listeners w4 = listeners w3 \<and> tasks w4 = tasks w3"
    using generateExtensionBundles_frame [of env s3 w3] b by simp
  have "(case initialize env sched s w of (r, s', w') \<Rightarrow>
            extensions s' = extensions s \<and>
            (r = Inr ()) = (\<not> SERVE_APP env \<or>
               \<not> isl (fst (generateExtensionBundles env (fst (registration_phase env sched s w))
                              (snd (registration_phase env sched s w))))) \<and>
            isInitialized s' = (r = Inr ()) \<and>
            (extensions s = [] \<longrightarrow>
               apiHooks s' = apiHooks s \<and> apiEndpoints s' = apiEndpoints s \<and>
               endpointRouter s' = endpointRouter s \<and>
               listeners w' = listeners w \<and> tasks w' = tasks w))"
    using assms(1) phase ext init none b frame
    by (cases r) (auto simp: initialize_phases)
  then show ?thesis
    using caught by blast
qed


theorem discovery_failure_keeps_extension_list_witness:
  "\<not> isInitialized new_ExtensionManager \<and> discovery_fails sample_env_nodirs \<and>
   (case initialize sample_env_nodirs True new_ExtensionManager sample_world of (r, s', w') \<Rightarrow>
      r = Inr () \<and> isInitialized s' \<and> extensions s' = [] \<and> apiHooks s' = [] \<and>
      apiEndpoints s' = [] \<and> endpointRouter s' = [] \<and>
      listeners w' = [(''items.create'', 0)] \<and> tasks w' = [])"
proof -
  have n: "\<not> isInitialized new_ExtensionManager"
    by (simp add: new_ExtensionManager_def)
  have f: "discovery_fails sample_env_nodirs"
    by (simp add: discovery_fails_def sample_env_nodirs_def sample_env_def)
  have api: "\<not> SERVE_APP sample_env_nodirs"
    by (simp add: sample_env_nodirs_def sample_env_def)
  show ?thesis
    using discovery_failure_keeps_extension_list [OF n f, of True sample_world] n f api
    by (auto simp: new_ExtensionManager_def sample_world_def)
qed

lemma sample_reload_nodirs_eval:
  "\<exists>w'. reload sample_env_events_nodirs (fst sample_events_active) (snd sample_events_active) =
     (Inr (),
      \<lparr>isInitialized = True,
       extensions = [endpoint_b, hook_a, hook_b, hook_c, endpoint_a],
       appExtensions = [],
       apiHooks = [EventHook ''/h/a/i.js'' ''items.create'' 1,
                   EventHook ''/h/a/i.js'' ''items.update'' 4, EventHook ''/h/c'' ''items.delete'' 5],
       apiEndpoints = [ApiEndpoint ''/e/b''],
       endpointRouter = [''/custom'', ''/ea''],
       isScheduleHookEnabled = True\<rparr>, w')"
  by (simp add: sample_events_active_state sample_events_active_world sample_env_events_nodirs_def
        sample_env_events_def sample_defs teardown_defs run_defs)

text \<open>
  C3 as stated fails. The sample installation without cron entry is initialized with five
  extensions; a \<open>reload()\<close> during which the extension directory cannot be created runs
  \<open>initialize\<close>, which catches the error and returns normally, yet the extension list still
  holds the five extensions and the registrars have registered their hooks and endpoints
  again.
\<close>

theorem discovery_failure_not_empty_counterexample:
  "isInitialized (fst sample_events_active) \<and> discovery_fails sample_env_events_nodirs \<and>
   fst (reload sample_env_events_nodirs (fst sample_events_active) (snd sample_events_active)) =
     Inr () \<and>
   extensions (fst (snd (reload sample_env_events_nodirs (fst sample_events_active)
                           (snd sample_events_active)))) =
     [endpoint_b, hook_a, hook_b, hook_c, endpoint_a] \<and>
   apiHooks (fst (snd (reload sample_env_events_nodirs (fst sample_events_active)
                         (snd sample_events_active)))) =
     [EventHook ''/h/a/i.js'' ''items.create'' 1, EventHook ''/h/a/i.js'' ''items.update'' 4,
      EventHook ''/h/c'' ''items.delete'' 5] \<and>
   endpointRouter (fst (snd (reload sample_env_events_nodirs (fst sample_events_active)
                               (snd sample_events_active)))) =
     [''/custom'', ''/ea'']"
proof -
  have f: "discovery_fails sample_env_events_nodirs"
    by (simp add: discovery_fails_def sample_env_events_nodirs_def sample_env_events_def
          sample_env_def)
  have i: "isInitialized (fst sample_events_active)"
    by (simp add: sample_events_active_state)
  show ?thesis
    using f i sample_reload_nodirs_eval by auto
qed

subsection \<open>Counting reload cycles\<close>

lemma reload_cycles_record_call [simp]:
  "reload_cycles (record_call c w) =
     reload_cycles w + (if c = LoggerInfo ''Reloading extensions'' then 1 else 0)"
  by (simp add: reload_cycles_def)

lemma reload_cycles_ops [simp]:
  "reload_cycles (logger_warn m w) = reload_cycles w"
  "reload_cycles (logger_warn_error e w) = reload_cycles w"
  "reload_cycles (logger_error e w) = reload_cycles w"
  "reload_cycles (logger_info m w) =
     reload_cycles w + (if m = ''Reloading extensions'' then 1 else 0)"
  "reload_cycles (emitter_on ev h w) = reload_cycles w"
  "reload_cycles (emitter_off ev h w) = reload_cycles w"
  "reload_cycles (snd (task_destroy env t w)) = reload_cycles w"
  "reload_cycles (snd (schedule c h w)) = reload_cycles w"
  by (simp_all add: reload_cycles_def)

lemma reload_cycles_register_event:
  "reload_cycles (snd (register_event env p entry s w)) = reload_cycles w"
  by (cases entry) (simp add: register_event_def split: option.splits prod.splits,
      metis reload_cycles_ops(8) snd_conv)

lemma reload_cycles_register_events:
  "reload_cycles (snd (register_events env p entries s w)) = reload_cycles w"
proof (induction entries arbitrary: s w)
  case Nil
  show ?case by simp
next
  case (Cons entry entries)
  obtain s1 w1 where step: "register_event env p entry s w = (s1, w1)"
    by (cases "register_event env p entry s w")
  then have "reload_cycles w1 = reload_cycles w"
    using reload_cycles_register_event [of env p entry s w] by simp
  then show ?case
    using step Cons.IH [of s1 w1] by simp
qed

lemma reload_cycles_registerHook:
  "reload_cycles (snd (snd (registerHook env hook s w))) = reload_cycles w"
proof -
  let ?p = "path_resolve env (path hook) (entrypoint_or_empty hook)"
  have "reload_cycles (snd (register_events env ?p events s
          (record_call (CallRegister ?p) (record_call (CallRequire ?p) w)))) = reload_cycles w"
    for events
    by (simp add: reload_cycles_register_events)
  then show ?thesis
    by (auto simp: registerHook_def Let_def split: sum.splits prod.splits)
qed

lemma reload_cycles_registerHooks_loop:
  "reload_cycles (snd (registerHooks_loop env hooks s w)) = reload_cycles w"
proof (induction hooks arbitrary: s w)
  case Nil
  show ?case by simp
next
  case (Cons hook hooks)
  obtain r s1 w1 where step: "registerHook env hook s w = (r, s1, w1)"
    by (cases "registerHook env hook s w")
  then have "reload_cycles w1 = reload_cycles w"
    using reload_cycles_registerHook [of env hook s w] by simp
  then show ?case
    using step Cons.IH by (cases r) simp_all
qed

lemma reload_cycles_registerEndpoint:
  "reload_cycles (snd (snd (registerEndpoint env endpoint s w))) = reload_cycles w"
  by (auto simp: registerEndpoint_def Let_def split: sum.splits EndpointConfig.splits)

lemma reload_cycles_registerEndpoints_loop:
  "reload_cycles (snd (registerEndpoints_loop env endpoints s w)) = reload_cycles w"
proof (induction endpoints arbitrary: s w)
  case Nil
  show ?case by simp
next
  case (Cons endpoint endpoints)
  obtain r s1 w1 where step: "registerEndpoint env endpoint s w = (r, s1, w1)"
    by (cases "registerEndpoint env endpoint s w")
  then have "reload_cycles w1 = reload_cycles w"
    using reload_cycles_registerEndpoint [of env endpoint s w] by simp
  then show ?case
    using step Cons.IH by (cases r) simp_all
qed

lemma reload_cycles_load_extensions:
  "reload_cycles (snd (load_extensions env s w)) = reload_cycles w"
  by (auto simp: load_extensions_def getExtensions_def Let_def split: sum.splits prod.splits)

lemma reload_cycles_registration_phase:
  "reload_cycles (snd (registration_phase env sched s w)) = reload_cycles w"
proof -
  obtain s1 w1 where l: "load_extensions env (s\<lparr>isScheduleHookEnabled := sched\<rparr>) w = (s1, w1)"
    by (cases "load_extensions env (s\<lparr>isScheduleHookEnabled := sched\<rparr>) w")
  obtain s2 w2 where h: "registerHooks env s1 w1 = (s2, w2)"
    by (cases "registerHooks env s1 w1")
  have "reload_cycles w1 = reload_cycles w"
    using reload_cycles_load_extensions [of env "s\<lparr>isScheduleHookEnabled := sched\<rparr>" w] l by simp
  moreover have "reload_cycles w2 = reload_cycles w1"
    using reload_cycles_registerHooks_loop
            [of env "filter (\<lambda>extension. ext_type extension = ''hook'') (extensions s1)" s1 w1] h
    by (simp add: registerHooks_def)
  moreover have "reload_cycles (snd (registerEndpoints env s2 w2)) = reload_cycles w2"
    by (simp add: registerEndpoints_def reload_cycles_registerEndpoints_loop)
  ultimately show ?thesis
    using l h by (simp add: registration_phase_def)
qed

lemma reload_cycles_getSharedDepsMapping_loop:
  "reload_cycles (snd (getSharedDepsMapping_loop env appDir deps m w)) = reload_cycles w"
  by (induction deps arbitrary: m w) (auto split: option.splits)

lemma reload_cycles_getSharedDepsMapping:
  "reload_cycles (snd (getSharedDepsMapping env deps w)) = reload_cycles w"
proof (cases "readdir_app_dist env")
  case (Inl e)
  then show ?thesis by (simp add: getSharedDepsMapping_def)
next
  case (Inr appDir)
  obtain m w1 where l: "getSharedDepsMapping_loop env appDir deps [] (record_call CallReaddir w) = (m, w1)"
    by (cases "getSharedDepsMapping_loop env appDir deps [] (record_call CallReaddir w)")
  then show ?thesis
    using Inr reload_cycles_getSharedDepsMapping_loop [of env appDir deps "[]" "record_call CallReaddir w"]
    by (simp add: getSharedDepsMapping_def)
qed

lemma reload_cycles_generateExtensionBundles_loop:
  "reload_cycles (snd (generateExtensionBundles_loop env exts sdm types bundles w)) = reload_cycles w"
  by (induction types arbitrary: bundles w) (auto simp: Let_def split: sum.splits)

lemma reload_cycles_generateExtensionBundles:
  "reload_cycles (snd (generateExtensionBundles env s w)) = reload_cycles w"
proof -
  obtain r w1 where g: "getSharedDepsMapping env (APP_SHARED_DEPS env) w = (r, w1)"
    by (cases "getSharedDepsMapping env (APP_SHARED_DEPS env) w")
  have f: "reload_cycles w1 = reload_cycles w"
    using reload_cycles_getSharedDepsMapping [of env "APP_SHARED_DEPS env" w] g by simp
  show ?thesis
    using g f reload_cycles_generateExtensionBundles_loop
    by (cases r) (simp_all add: generateExtensionBundles_def)
qed

lemma reload_cycles_initialize:
  "reload_cycles (snd (snd (initialize env sched s w))) = reload_cycles w"
proof (cases "isInitialized s")
  case True
  then show ?thesis by (simp add: initialize_guard)
next
  case False
  obtain s3 w3 where phase: "registration_phase env sched s w = (s3, w3)"
    by (cases "registration_phase env sched s w")
  have p: "reload_cycles w3 = reload_cycles w"
    using reload_cycles_registration_phase [of env sched s w] phase by simp
  obtain r w4 where b: "generateExtensionBundles env s3 w3 = (r, w4)"
    by (cases "generateExtensionBundles env s3 w3")
  have "reload_cycles w4 = reload_cycles w3"
    using reload_cycles_generateExtensionBundles [of env s3 w3] b by simp
  then show ?thesis
    using False phase p b by (cases r) (simp_all add: initialize_phases)
qed

lemma reload_cycles_unregisterHooks_loop:
  "reload_cycles (snd (unregisterHooks_loop env hooks w)) = reload_cycles w"
proof (induction hooks arbitrary: w)
  case Nil
  show ?case by simp
next
  case (Cons hook hooks)
  obtain r1 w1 where step:
    "(case hook of CronHook p t \<Rightarrow> task_destroy env t w
      | EventHook p event h \<Rightarrow> (Inr (), emitter_off event h w)) = (r1, w1)"
    by (cases "case hook of CronHook p t \<Rightarrow> task_destroy env t w
      | EventHook p event h \<Rightarrow> (Inr (), emitter_off event h w)")
  have w1: "reload_cycles w1 = reload_cycles w"
  proof (cases hook)
    case (CronHook p t)
    then show ?thesis
      using step reload_cycles_ops(7) [of env t w] by simp
  next
    case (EventHook p event h)
    then show ?thesis
      using step by auto
  qed
  show ?case
  proof (cases r1)
    case (Inl e)
    then show ?thesis using step w1 by simp
  next
    case (Inr u)
    show ?thesis
    proof (cases "require_resolve env (hook_path hook)")
      case (Inl e)
      then show ?thesis using step Inr w1 by simp
    next
      case resolved: (Inr resolved)
      then show ?thesis
        using step Inr w1 Cons.IH [of "record_call (CallCacheDelete resolved) w1"] by simp
    qed
  qed
qed

lemma reload_cycles_unregisterEndpoints_loop:
  "reload_cycles (snd (unregisterEndpoints_loop env endpoints w)) = reload_cycles w"
  by (induction endpoints arbitrary: w) (auto split: sum.splits)

lemma reload_cycles_reload:
  "reload_cycles (snd (snd (reload env s w))) =
     reload_cycles w + (if isInitialized s then 1 else 0)"
proof (cases "isInitialized s")
  case False
  then show ?thesis by (simp add: reload_def)
next
  case True
  let ?w0 = "logger_info ''Reloading extensions'' w"
  obtain r1 w1 where h: "unregisterHooks_loop env (apiHooks s) ?w0 = (r1, w1)"
    by (cases "unregisterHooks_loop env (apiHooks s) ?w0")
  have c1: "reload_cycles w1 = reload_cycles w + 1"
    using reload_cycles_unregisterHooks_loop [of env "apiHooks s" ?w0] h by simp
  obtain r2 w2 where e: "unregisterEndpoints_loop env (apiEndpoints s) w1 = (r2, w2)"
    by (cases "unregisterEndpoints_loop env (apiEndpoints s) w1")
  have c2: "reload_cycles w2 = reload_cycles w + 1"
    using reload_cycles_unregisterEndpoints_loop [of env "apiEndpoints s" w1] e c1 by simp
  show ?thesis
    using True h e c1 c2
    by (cases r1; cases r2)
       (simp_all add: reload_def unregisterHooks_def unregisterEndpoints_def
          reload_cycles_initialize)
qed


subsection \<open>Installing a package\<close>

lemma sample_events_active_app_eval:
  "\<exists>w'. sample_events_active_app =
     (\<lparr>isInitialized = True,
       extensions = [endpoint_b, hook_a, hook_b, hook_c, endpoint_a],
       appExtensions = [(''layout'', ''code''), (''panel'', ''code'')],
       apiHooks = [EventHook ''/h/a/i.js'' ''items.create'' 1,
                   EventHook ''/h/a/i.js'' ''items.update'' 4, EventHook ''/h/c'' ''items.delete'' 5],
       apiEndpoints = [ApiEndpoint ''/e/b''],
       endpointRouter = [''/custom'', ''/ea''],
       isScheduleHookEnabled = True\<rparr>, w')"
  by (simp add: sample_events_active_app_def sample_env_events_app_def sample_env_events_def
        sample_defs run_defs bundle_defs)

lemma sample_events_active_app_state:
  "fst sample_events_active_app =
     \<lparr>isInitialized = True,
      extensions = [endpoint_b, hook_a, hook_b, hook_c, endpoint_a],
      appExtensions = [(''layout'', ''code''), (''panel'', ''code'')],
      apiHooks = [EventHook ''/h/a/i.js'' ''items.create'' 1,
                  EventHook ''/h/a/i.js'' ''items.update'' 4, EventHook ''/h/c'' ''items.delete'' 5],
      apiEndpoints = [ApiEndpoint ''/e/b''],
      endpointRouter = [''/custom'', ''/ea''],
      isScheduleHookEnabled = True\<rparr>"
  using sample_events_active_app_eval by (auto simp: prod_eq_iff)

lemma install_invalid_name:
  "\<not> EXTENSION_NAME_REGEX env n \<Longrightarrow> install env n s w = (Inr False, s, w)"
  by (simp add: install_def)

lemma install_not_installed:
  "EXTENSION_NAME_REGEX env n \<Longrightarrow> \<not> installPackage env n \<Longrightarrow>
     install env n s w = (Inr False, s, record_call (CallInstallPackage n) w)"
  by (simp add: install_def)

lemma install_installed:
  "EXTENSION_NAME_REGEX env n \<Longrightarrow> installPackage env n \<Longrightarrow>
     install env n s w =
       (case reload env s (record_call (CallInstallPackage n) w) of
          (r, s', w') \<Rightarrow> ((case r of Inl e \<Rightarrow> Inl e | Inr u \<Rightarrow> Inr True), s', w'))"
  by (simp add: install_def split: prod.splits sum.splits)

text \<open>
  C4, as amended. A name that fails the pattern makes \<open>install\<close> return false with the
  manager and the world untouched: the installer is not called. For a name that passes,
  the installer is called once. When it reports failure, \<open>install\<close> returns false and
  nothing but that call has happened. When it reports success, \<open>install\<close> is one call of
  \<open>reload\<close>: it starts one reload cycle on an initialized manager and none otherwise, it
  returns true when the reload returns, and it throws what the reload throws.
\<close>

theorem install_validates_then_reloads_once:
  "(\<not> EXTENSION_NAME_REGEX env n \<longrightarrow> install env n s w = (Inr False, s, w)) \<and>
   (EXTENSION_NAME_REGEX env n \<longrightarrow> \<not> installPackage env n \<longrightarrow>
      install env n s w = (Inr False, s, record_call (CallInstallPackage n) w)) \<and>
   (EXTENSION_NAME_REGEX env n \<longrightarrow> installPackage env n \<longrightarrow>
      (case reload env s (record_call (CallInstallPackage n) w) of
         (r, s', w') \<Rightarrow>
           install env n s w = ((case r of Inl e \<Rightarrow> Inl e | Inr u \<Rightarrow> Inr True), s', w') \<and>
           reload_cycles w' = reload_cycles w + (if isInitialized s then 1 else 0)))"
proof -
  have "reload_cycles (snd (snd (reload env s (record_call (CallInstallPackage n) w)))) =
      reload_cycles w + (if isInitialized s then 1 else 0)"
    by (simp add: reload_cycles_reload)
  then show ?thesis
    by (auto simp: install_invalid_name install_not_installed install_installed
          split: prod.splits)
qed

lemma sample_install_eval:
  "\<exists>s' w'. reload sample_env_events (fst sample_events_active)
             (record_call (CallInstallPackage ''directus-extension-x'') (snd sample_events_active)) =
     (Inr (), s', w')"
  by (simp add: sample_events_active_state sample_events_active_world sample_env_events_def
        sample_defs teardown_defs run_defs)

theorem install_validates_then_reloads_once_witness:
  "\<not> EXTENSION_NAME_REGEX sample_env_events ''bad name!'' \<and>
   install sample_env_events ''bad name!'' (fst sample_events_active) (snd sample_events_active) =
     (Inr False, fst sample_events_active, snd sample_events_active) \<and>
   EXTENSION_NAME_REGEX sample_env_events ''directus-extension-missing'' \<and>
   \<not> installPackage sample_env_events ''directus-extension-missing'' \<and>
   install sample_env_events ''directus-extension-missing''
       (fst sample_events_active) (snd sample_events_active) =
     (Inr False, fst sample_events_active,
      record_call (CallInstallPackage ''directus-extension-missing'') (snd sample_events_active)) \<and>
   EXTENSION_NAME_REGEX sample_env_events ''directus-extension-x'' \<and>
   installPackage sample_env_events ''directus-extension-x'' \<and>
   isInitialized (fst sample_events_active) \<and>
   fst (install sample_env_events ''directus-extension-x''
          (fst sample_events_active) (snd sample_events_active)) = Inr True \<and>
   reload_cycles
     (snd (snd (install sample_env_events ''directus-extension-x''
                  (fst sample_events_active) (snd sample_events_active)))) =
     reload_cycles (snd sample_events_active) + 1"
proof -
  have bad: "\<not> EXTENSION_NAME_REGEX sample_env_events ''bad name!''"
    by (simp add: sample_env_events_def sample_env_def)
  have missing: "EXTENSION_NAME_REGEX sample_env_events ''directus-extension-missing''"
    "\<not> installPackage sample_env_events ''directus-extension-missing''"
    by (simp_all add: sample_env_events_def sample_env_def)
  have ok: "EXTENSION_NAME_REGEX sample_env_events ''directus-extension-x''"
    "installPackage sample_env_events ''directus-extension-x''"
    by (simp_all add: sample_env_events_def sample_env_def)
  have i: "isInitialized (fst sample_events_active)"
    by (simp add: sample_events_active_state)
  obtain s' w' where r: "reload sample_env_events (fst sample_events_active)
             (record_call (CallInstallPackage ''directus-extension-x'') (snd sample_events_active)) =
     (Inr (), s', w')"
    using sample_install_eval by blast
  show ?thesis
    using install_validates_then_reloads_once
            [where env = sample_env_events and n = "''bad name!''"
               and s = "fst sample_events_active" and w = "snd sample_events_active"]
      install_validates_then_reloads_once
            [where env = sample_env_events and n = "''directus-extension-missing''"
               and s = "fst sample_events_active" and w = "snd sample_events_active"]
      install_validates_then_reloads_once
            [where env = sample_env_events and n = "''directus-extension-x''"
               and s = "fst sample_events_active" and w = "snd sample_events_active"]
      bad missing ok i r
    by simp
qed

text \<open>
  C4 as stated fails, in two ways. The sample installation without cron entry serves the
  app and is initialized; a package with a valid name is installed with success, but the
  bundler fails in the reload that follows: \<open>install\<close> throws the bundler's error instead of
  returning true. And on a new manager, which is not initialized, the same install returns
  true without any reload cycle: the manager is as it was, the only call made is the one to
  the installer, and no extension has been discovered.
\<close>

theorem install_throws_counterexample:
  "isInitialized (fst sample_events_active_app) \<and>
   EXTENSION_NAME_REGEX sample_env_events_app_broken ''directus-extension-x'' \<and>
   installPackage sample_env_events_app_broken ''directus-extension-x'' \<and>
   fst (install sample_env_events_app_broken ''directus-extension-x''
          (fst sample_events_active_app) (snd sample_events_active_app)) = Inl (Error ''rollup'') \<and>
   \<not> isInitialized new_ExtensionManager \<and>
   EXTENSION_NAME_REGEX sample_env_events ''directus-extension-x'' \<and>
   installPackage sample_env_events ''directus-extension-x'' \<and>
   install sample_env_events ''directus-extension-x'' new_ExtensionManager sample_world =
     (Inr True, new_ExtensionManager,
      sample_world\<lparr>trace := [CallInstallPackage ''directus-extension-x'']\<rparr>) \<and>
   reload_cycles (sample_world\<lparr>trace := [CallInstallPackage ''directus-extension-x'']\<rparr>) = 0"
proof -
  have "fst (install sample_env_events_app_broken ''directus-extension-x''
          (fst sample_events_active_app) (snd sample_events_active_app)) = Inl (Error ''rollup'')"
    by (simp add: install_def sample_events_active_app_state sample_env_events_app_broken_def
          sample_env_events_def sample_defs teardown_defs run_defs bundle_defs)
  moreover have "install sample_env_events ''directus-extension-x'' new_ExtensionManager sample_world =
     (Inr True, new_ExtensionManager,
      sample_world\<lparr>trace := [CallInstallPackage ''directus-extension-x'']\<rparr>)"
    by (simp add: install_def reload_def record_call_def sample_env_events_def sample_env_def
          sample_world_def new_ExtensionManager_def)
  moreover have "reload_cycles (sample_world\<lparr>trace := [CallInstallPackage ''directus-extension-x'']\<rparr>) = 0"
    by (simp add: reload_cycles_def)
  ultimately show ?thesis
    by (simp add: sample_events_active_app_state sample_env_events_app_broken_def
          sample_env_events_def sample_env_def new_ExtensionManager_def)
qed

subsection \<open>Teardown and reload\<close>

lemma unregisterHooks_loop_effect:
  "unregisterHooks_loop env hooks w = (Inr (), w1) \<Longrightarrow>
     tasks w1 = filter (\<lambda>x. fst x \<notin> set (recorded_tasks hooks)) (tasks w) \<and>
     mset (listeners w1) = mset (listeners w) - mset (recorded_subscriptions hooks) \<and>
     next_task w1 = next_task w \<and>
     set (trace w) \<subseteq> set (trace w1) \<and>
     (\<forall>t \<in> set (recorded_tasks hooks). CallTaskDestroy t \<in> set (trace w1)) \<and>
     (\<forall>x \<in> set (recorded_subscriptions hooks). CallEmitterOff (fst x) (snd x) \<in> set (trace w1))"
proof (induction hooks arbitrary: w)
  case Nil
  then show ?case by simp
next
  case (Cons hook hooks)
  show ?case
  proof (cases hook)
    case (CronHook p t)
    obtain rd wd where d: "task_destroy env t w = (rd, wd)"
      by (cases "task_destroy env t w")
    have rd: "rd = Inr ()"
      using Cons.prems CronHook d by (cases rd) simp_all
    have wd: "tasks wd = filter (\<lambda>x. fst x \<noteq> t) (tasks w)" "listeners wd = listeners w"
      "next_task wd = next_task w" "trace wd = trace w @ [CallTaskDestroy t]"
      using task_destroy_returns [of env t w "()" wd] task_destroy_sel [of env t w] d rd
      by simp_all
    obtain resolved where res: "require_resolve env p = Inr resolved"
      using Cons.prems CronHook d rd by (cases "require_resolve env p") simp_all
    let ?w = "record_call (CallCacheDelete resolved) wd"
    have rest: "unregisterHooks_loop env hooks ?w = (Inr (), w1)"
      using Cons.prems CronHook d rd res by simp
    note ih = Cons.IH [OF rest]
    have "filter (\<lambda>x. fst x \<notin> set (recorded_tasks hooks)) (filter (\<lambda>x. fst x \<noteq> t) (tasks w)) =
        filter (\<lambda>x. fst x \<notin> set (recorded_tasks (hook # hooks))) (tasks w)"
      using CronHook by (auto intro: filter_cong)
    moreover have "CallTaskDestroy t \<in> set (trace w1)"
      using ih wd by auto
    ultimately show ?thesis
      using ih wd CronHook by auto
  next
    case (EventHook p event h)
    obtain resolved where res: "require_resolve env p = Inr resolved"
      using Cons.prems EventHook by (cases "require_resolve env p") simp_all
    let ?w = "record_call (CallCacheDelete resolved) (emitter_off event h w)"
    have rest: "unregisterHooks_loop env hooks ?w = (Inr (), w1)"
      using Cons.prems EventHook res by simp
    note ih = Cons.IH [OF rest]
    have "mset (listeners w1) = mset (listeners w) - mset (recorded_subscriptions (hook # hooks))"
      using ih EventHook by simp
    moreover have "CallEmitterOff event h \<in> set (trace w1)"
      using ih by auto
    ultimately show ?thesis
      using ih EventHook by auto
  qed
qed

lemma unregisterEndpoints_loop_frame:
  "listeners (snd (unregisterEndpoints_loop env endpoints w)) = listeners w \<and>
   tasks (snd (unregisterEndpoints_loop env endpoints w)) = tasks w \<and>
   next_task (snd (unregisterEndpoints_loop env endpoints w)) = next_task w \<and>
   set (trace w) \<subseteq> set (trace (snd (unregisterEndpoints_loop env endpoints w)))"
proof (induction endpoints arbitrary: w)
  case Nil
  show ?case by simp
next
  case (Cons endpoint endpoints)
  show ?case
  proof (cases "require_resolve env (endpoint_path endpoint)")
    case (Inl e)
    then show ?thesis by simp
  next
    case (Inr resolved)
    have "set (trace w) \<subseteq> set (trace (record_call (CallCacheDelete resolved) w))"
      by auto
    then show ?thesis
      using Inr Cons.IH [of "record_call (CallCacheDelete resolved) w"] by auto
  qed
qed

lemma load_extensions_frame:
  "listeners (snd (load_extensions env s w)) = listeners w \<and>
   tasks (snd (load_extensions env s w)) = tasks w \<and>
   next_task (snd (load_extensions env s w)) = next_task w"
  by (auto simp: load_extensions_def getExtensions_def Let_def split: sum.splits prod.splits)

lemma initialize_new_tasks:
  assumes "x \<in> set (tasks (snd (snd (initialize env sched s w))))"
  shows "x \<in> set (tasks w) \<or> next_task w \<le> fst x"
proof (cases "isInitialized s")
  case True
  then show ?thesis using assms by (simp add: initialize_guard)
next
  case False
  obtain s3 w3 where phase: "registration_phase env sched s w = (s3, w3)"
    by (cases "registration_phase env sched s w")
  obtain r w4 where b: "generateExtensionBundles env s3 w3 = (r, w4)"
    by (cases "generateExtensionBundles env s3 w3")
  have "tasks w4 = tasks w3"
    using generateExtensionBundles_frame [of env s3 w3] b by simp
  then have "x \<in> set (tasks w3)"
    using assms False phase b by (cases r) (simp_all add: initialize_phases split: if_splits)
  then have "x \<in> set (tasks (snd (load_extensions env (s\<lparr>isScheduleHookEnabled := sched\<rparr>) w))) \<or>
      next_task (snd (load_extensions env (s\<lparr>isScheduleHookEnabled := sched\<rparr>) w)) \<le> fst x"
    using grows_tasks [OF registration_phase_grows [where env = env and s = s and sched = sched and w = w]]
      phase by simp
  then show ?thesis
    by (simp add: load_extensions_frame)
qed

lemma reload_teardown_then_initialize:
  assumes "isInitialized s" and "reload env s w = (Inr (), s', w')"
  shows "\<exists>s_mid w_mid.
           apiHooks s_mid = [] \<and> apiEndpoints s_mid = [] \<and> endpointRouter s_mid = [] \<and>
           \<not> isInitialized s_mid \<and>
           tasks w_mid = filter (\<lambda>x. fst x \<notin> set (recorded_tasks (apiHooks s))) (tasks w) \<and>
           mset (listeners w_mid) =
             mset (listeners w) - mset (recorded_subscriptions (apiHooks s)) \<and>
           next_task w_mid = next_task w \<and>
           (\<forall>t \<in> set (recorded_tasks (apiHooks s)). CallTaskDestroy t \<in> set (trace w_mid)) \<and>
           (\<forall>x \<in> set (recorded_subscriptions (apiHooks s)).
              CallEmitterOff (fst x) (snd x) \<in> set (trace w_mid)) \<and>
           initialize env True s_mid w_mid = (Inr (), s', w')"
    and "\<forall>t \<in> set (recorded_tasks (apiHooks s)).
           t < next_task w \<longrightarrow> t \<notin> fst ` set (tasks w')"
proof -
  let ?w0 = "logger_info ''Reloading extensions'' w"
  obtain r1 w1 where h: "unregisterHooks_loop env (apiHooks s) ?w0 = (r1, w1)"
    by (cases "unregisterHooks_loop env (apiHooks s) ?w0")
  have r1: "r1 = Inr ()"
    using assms h by (cases r1) (simp_all add: reload_def unregisterHooks_def)
  obtain r2 w2 where e: "unregisterEndpoints_loop env (apiEndpoints s) w1 = (r2, w2)"
    by (cases "unregisterEndpoints_loop env (apiEndpoints s) w1")
  have r2: "r2 = Inr ()"
    using assms h r1 e by (cases r2) (simp_all add: reload_def unregisterHooks_def unregisterEndpoints_def)
  define s_mid where "s_mid =
    (if SERVE_APP env then s\<lparr>apiHooks := [], endpointRouter := [], apiEndpoints := [], appExtensions := []\<rparr>
     else s\<lparr>apiHooks := [], endpointRouter := [], apiEndpoints := []\<rparr>)\<lparr>isInitialized := False\<rparr>"
  have init: "initialize env True s_mid w2 = (Inr (), s', w')"
    using assms h r1 e r2
    by (simp add: reload_def unregisterHooks_def unregisterEndpoints_def s_mid_def Let_def)
  have hooks: "tasks w1 = filter (\<lambda>x. fst x \<notin> set (recorded_tasks (apiHooks s))) (tasks w) \<and>
     mset (listeners w1) = mset (listeners w) - mset (recorded_subscriptions (apiHooks s)) \<and>
     next_task w1 = next_task w \<and>
     (\<forall>t \<in> set (recorded_tasks (apiHooks s)). CallTaskDestroy t \<in> set (trace w1)) \<and>
     (\<forall>x \<in> set (recorded_subscriptions (apiHooks s)). CallEmitterOff (fst x) (snd x) \<in> set (trace w1))"
    using unregisterHooks_loop_effect [OF h [unfolded r1]] by simp
  have ends: "listeners w2 = listeners w1 \<and> tasks w2 = tasks w1 \<and> next_task w2 = next_task w1 \<and>
      set (trace w1) \<subseteq> set (trace w2)"
    using unregisterEndpoints_loop_frame [of env "apiEndpoints s" w1] e by simp
  have mid: "tasks w2 = filter (\<lambda>x. fst x \<notin> set (recorded_tasks (apiHooks s))) (tasks w) \<and>
     mset (listeners w2) = mset (listeners w) - mset (recorded_subscriptions (apiHooks s)) \<and>
     next_task w2 = next_task w \<and>
     (\<forall>t \<in> set (recorded_tasks (apiHooks s)). CallTaskDestroy t \<in> set (trace w2)) \<and>
     (\<forall>x \<in> set (recorded_subscriptions (apiHooks s)). CallEmitterOff (fst x) (snd x) \<in> set (trace w2))"
    using hooks ends by auto
  have fresh: "t \<notin> fst ` set (tasks w')"
    if t: "t \<in> set (recorded_tasks (apiHooks s))" and old: "t < next_task w" for t
  proof
    assume "t \<in> fst ` set (tasks w')"
    then obtain x where x: "x \<in> set (tasks w')" "fst x = t"
      by auto
    then have "x \<in> set (tasks w2) \<or> next_task w2 \<le> fst x"
      using initialize_new_tasks [of x env True s_mid w2] init by simp
    then show False
      using mid x t old by auto
  qed
  have state: "apiHooks s_mid = [] \<and> apiEndpoints s_mid = [] \<and> endpointRouter s_mid = [] \<and>
      \<not> isInitialized s_mid"
    by (simp add: s_mid_def)
  show "\<exists>s_mid w_mid.
           apiHooks s_mid = [] \<and> apiEndpoints s_mid = [] \<and> endpointRouter s_mid = [] \<and>
           \<not> isInitialized s_mid \<and>
           tasks w_mid = filter (\<lambda>x. fst x \<notin> set (recorded_tasks (apiHooks s))) (tasks w) \<and>
           mset (listeners w_mid) =
             mset (listeners w) - mset (recorded_subscriptions (apiHooks s)) \<and>
           next_task w_mid = next_task w \<and>
           (\<forall>t \<in> set (recorded_tasks (apiHooks s)). CallTaskDestroy t \<in> set (trace w_mid)) \<and>
           (\<forall>x \<in> set (recorded_subscriptions (apiHooks s)).
              CallEmitterOff (fst x) (snd x) \<in> set (trace w_mid)) \<and>
           initialize env True s_mid w_mid = (Inr (), s', w')"
    using state mid init by blast
  show "\<forall>t \<in> set (recorded_tasks (apiHooks s)).
           t < next_task w \<longrightarrow> t \<notin> fst ` set (tasks w')"
    using fresh by blast
qed


lemma sample_reload_eval:
  "\<exists>s' w'. reload sample_env_events (fst sample_events_active) (snd sample_events_active) =
       (Inr (), s', w') \<and>
     listeners w' = [(''items.create'', 0), (''items.create'', 1), (''items.update'', 4),
                     (''items.delete'', 5)] \<and>
     tasks w' = [] \<and> next_task w' = 0"
  by (simp add: sample_events_active_state sample_events_active_world sample_env_events_def
        sample_defs teardown_defs run_defs)

text \<open>
  With the node-cron of the sample installation, whose tasks have no \<open>destroy\<close> method,
  a \<open>reload()\<close> of the installation that has a cron record throws at that record: the
  records before it have been torn down, the task is still live, the record list and the
  initialized flag are as they were.
\<close>

lemma sample_reload_throws_at_destroy:
  "\<exists>w'. reload sample_env (fst sample_active) (snd sample_active) =
       (Inl (Error ''TypeError: hook.task.destroy is not a function''), fst sample_active, w') \<and>
     tasks w' = [(0, ''0 0 * * *'', 2)] \<and>
     listeners w' = [(''items.create'', 0), (''items.update'', 4), (''items.delete'', 5)]"
  by (simp add: sample_active_state sample_active_world sample_defs teardown_defs run_defs)

subsection \<open>Task names in lifecycle sequences\<close>

lemma recorded_tasks_append:
  "recorded_tasks (xs @ ys) = recorded_tasks xs @ recorded_tasks ys"
  by (induction xs rule: recorded_tasks.induct) simp_all

lemma names_below_kept:
  assumes "names_below (s, w)"
    and "set (recorded_tasks (apiHooks s1)) \<subseteq> set (recorded_tasks (apiHooks s))"
    and "set (tasks w1) \<subseteq> set (tasks w)" and "next_task w \<le> next_task w1"
  shows "names_below (s1, w1)"
  using assms unfolding names_below_def by fastforce

lemma names_below_register_event:
  "names_below (s, w) \<Longrightarrow> names_below (register_event env p entry s w)"
  by (cases entry)
     (auto simp: names_below_def register_event_def schedule_def recorded_tasks_append
        less_Suc_eq split: option.splits)

lemma names_below_register_events:
  "names_below (s, w) \<Longrightarrow> names_below (register_events env p entries s w)"
proof (induction entries arbitrary: s w)
  case Nil
  then show ?case by simp
next
  case (Cons entry entries)
  obtain s1 w1 where step: "register_event env p entry s w = (s1, w1)"
    by (cases "register_event env p entry s w")
  then have "names_below (s1, w1)"
    using names_below_register_event [OF Cons.prems, of env p entry] by simp
  then show ?case
    using step Cons.IH by simp
qed

lemma names_below_registerHook:
  assumes "names_below (s, w)"
  shows "names_below (snd (registerHook env hook s w))"
proof -
  let ?p = "path_resolve env (path hook) (entrypoint_or_empty hook)"
  have a: "names_below (s, record_call (CallRequire ?p) w)"
    using assms by (rule names_below_kept) simp_all
  have b: "names_below (s, record_call (CallRegister ?p) (record_call (CallRequire ?p) w))"
    using assms by (rule names_below_kept) simp_all
  have "names_below (register_events env ?p events s
          (record_call (CallRegister ?p) (record_call (CallRequire ?p) w)))" for events
    using b by (rule names_below_register_events)
  then show ?thesis
    using a b by (auto simp: registerHook_def Let_def split: sum.splits prod.splits)
qed

lemma names_below_registerHooks_loop:
  "names_below (s, w) \<Longrightarrow> names_below (registerHooks_loop env hooks s w)"
proof (induction hooks arbitrary: s w)
  case Nil
  then show ?case by simp
next
  case (Cons hook hooks)
  obtain r s1 w1 where step: "registerHook env hook s w = (r, s1, w1)"
    by (cases "registerHook env hook s w")
  have n: "names_below (s1, w1)"
    using names_below_registerHook [OF Cons.prems, of env hook] step by simp
  show ?case
  proof (cases r)
    case (Inl error)
    let ?w = "logger_warn_error error
               (logger_warn (''Couldn't register hook '' @ [CHR 0x22] @ name hook @ [CHR 0x22]) w1)"
    have "names_below (s1, ?w)"
      using n by (rule names_below_kept) simp_all
    then show ?thesis
      using Inl step Cons.IH by simp
  next
    case (Inr u)
    then show ?thesis
      using n step Cons.IH by simp
  qed
qed

lemma registerEndpoint_hooks_world:
  "apiHooks (fst (snd (registerEndpoint env endpoint s w))) = apiHooks s \<and>
   tasks (snd (snd (registerEndpoint env endpoint s w))) = tasks w \<and>
   next_task (snd (snd (registerEndpoint env endpoint s w))) = next_task w"
  by (auto simp: registerEndpoint_def Let_def split: sum.splits EndpointConfig.splits)

lemma names_below_registerEndpoints_loop:
  "names_below (s, w) \<Longrightarrow> names_below (registerEndpoints_loop env endpoints s w)"
proof (induction endpoints arbitrary: s w)
  case Nil
  then show ?case by simp
next
  case (Cons endpoint endpoints)
  obtain r s1 w1 where step: "registerEndpoint env endpoint s w = (r, s1, w1)"
    by (cases "registerEndpoint env endpoint s w")
  have n: "names_below (s1, w1)"
    by (rule names_below_kept [OF Cons.prems])
       (use registerEndpoint_hooks_world [of env endpoint s w] step in simp_all)
  show ?case
  proof (cases r)
    case (Inl error)
    let ?w = "logger_warn_error error
               (logger_warn (''Couldn't register endpoint '' @ [CHR 0x22] @ name endpoint @ [CHR 0x22]) w1)"
    have "names_below (s1, ?w)"
      using n by (rule names_below_kept) simp_all
    then show ?thesis
      using Inl step Cons.IH by simp
  next
    case (Inr u)
    then show ?thesis
      using n step Cons.IH by simp
  qed
qed

lemma load_extensions_hooks:
  "apiHooks (fst (load_extensions env s w)) = apiHooks s"
  by (auto simp: load_extensions_def getExtensions_def Let_def split: sum.splits prod.splits)

lemma names_below_registration_phase:
  assumes "names_below (s, w)"
  shows "names_below (registration_phase env sched s w)"
proof -
  obtain s1 w1 where l: "load_extensions env (s\<lparr>isScheduleHookEnabled := sched\<rparr>) w = (s1, w1)"
    by (cases "load_extensions env (s\<lparr>isScheduleHookEnabled := sched\<rparr>) w")
  have "names_below (s1, w1)"
    by (rule names_below_kept [OF assms])
       (use load_extensions_hooks [of env "s\<lparr>isScheduleHookEnabled := sched\<rparr>" w]
          load_extensions_frame [of env "s\<lparr>isScheduleHookEnabled := sched\<rparr>" w] l in simp_all)
  then have "names_below (registerHooks env s1 w1)"
    unfolding registerHooks_def by (rule names_below_registerHooks_loop)
  then have "names_below (fst (registerHooks env s1 w1), snd (registerHooks env s1 w1))"
    by simp
  then have "names_below (registerEndpoints env (fst (registerHooks env s1 w1))
      (snd (registerHooks env s1 w1)))"
    unfolding registerEndpoints_def by (rule names_below_registerEndpoints_loop)
  then show ?thesis
    using l by (auto simp: registration_phase_def split: prod.splits)
qed

lemma names_below_initialize:
  assumes "names_below (s, w)"
  shows "names_below (snd (initialize env sched s w))"
proof (cases "isInitialized s")
  case True
  have "names_below (s\<lparr>isScheduleHookEnabled := sched\<rparr>, w)"
    using assms by (rule names_below_kept) simp_all
  then show ?thesis
    using True by (simp add: initialize_guard)
next
  case False
  obtain s3 w3 where phase: "registration_phase env sched s w = (s3, w3)"
    by (cases "registration_phase env sched s w")
  have n: "names_below (s3, w3)"
    using names_below_registration_phase [OF assms, of env sched] phase by simp
  obtain r w4 where b: "generateExtensionBundles env s3 w3 = (r, w4)"
    by (cases "generateExtensionBundles env s3 w3")
  have f: "tasks w4 = tasks w3 \<and> next_task w4 = next_task w3"
    using generateExtensionBundles_frame [of env s3 w3] b by simp
  have "names_below (s', w')"
    if "apiHooks s' = apiHooks s3" "tasks w' = tasks w3" "next_task w' = next_task w3" for s' w'
    by (rule names_below_kept [OF n]) (use that in simp_all)
  then show ?thesis
    using False phase b f by (cases r) (simp_all add: initialize_phases)
qed

lemma unregisterHooks_loop_tasks:
  "set (tasks (snd (unregisterHooks_loop env hooks w))) \<subseteq> set (tasks w) \<and>
   next_task (snd (unregisterHooks_loop env hooks w)) = next_task w"
proof (induction hooks arbitrary: w)
  case Nil
  show ?case by simp
next
  case (Cons hook hooks)
  obtain r1 w1 where step:
    "(case hook of CronHook p t \<Rightarrow> task_destroy env t w
      | EventHook p event h \<Rightarrow> (Inr (), emitter_off event h w)) = (r1, w1)"
    by (cases "case hook of CronHook p t \<Rightarrow> task_destroy env t w
      | EventHook p event h \<Rightarrow> (Inr (), emitter_off event h w)")
  have w1: "set (tasks w1) \<subseteq> set (tasks w) \<and> next_task w1 = next_task w"
  proof (cases hook)
    case (CronHook p t)
    then show ?thesis
      using step task_destroy_tasks [of env t w] task_destroy_sel(2) [of env t w] by simp
  next
    case (EventHook p event h)
    then show ?thesis
      using step by auto
  qed
  show ?case
  proof (cases r1)
    case (Inl e)
    then show ?thesis using step w1 by simp
  next
    case (Inr u)
    show ?thesis
    proof (cases "require_resolve env (hook_path hook)")
      case (Inl e)
      then show ?thesis using step Inr w1 by simp
    next
      case resolved: (Inr resolved)
      then show ?thesis
        using step Inr w1 Cons.IH [of "record_call (CallCacheDelete resolved) w1"] by auto
    qed
  qed
qed

lemma names_below_reload:
  assumes "names_below (s, w)"
  shows "names_below (snd (reload env s w))"
proof (cases "isInitialized s")
  case False
  then show ?thesis using assms by (simp add: reload_def)
next
  case True
  let ?w0 = "logger_info ''Reloading extensions'' w"
  obtain r1 w1 where h: "unregisterHooks_loop env (apiHooks s) ?w0 = (r1, w1)"
    by (cases "unregisterHooks_loop env (apiHooks s) ?w0")
  have w1: "set (tasks w1) \<subseteq> set (tasks w) \<and> next_task w1 = next_task w"
    using unregisterHooks_loop_tasks [of env "apiHooks s" ?w0] h by simp
  obtain r2 w2 where e: "unregisterEndpoints_loop env (apiEndpoints s) w1 = (r2, w2)"
    by (cases "unregisterEndpoints_loop env (apiEndpoints s) w1")
  have w2: "set (tasks w2) \<subseteq> set (tasks w) \<and> next_task w2 = next_task w"
    using unregisterEndpoints_loop_frame [of env "apiEndpoints s" w1] e w1 by simp
  have kept: "names_below (s', w')"
    if "set (recorded_tasks (apiHooks s')) \<subseteq> set (recorded_tasks (apiHooks s))"
      "set (tasks w') \<subseteq> set (tasks w)" "next_task w' = next_task w" for s' w'
    by (rule names_below_kept [OF assms]) (use that in simp_all)
  show ?thesis
  proof (cases r1)
    case (Inl e1)
    then show ?thesis
      using True h w1 kept [of s w1] by (simp add: reload_def unregisterHooks_def)
  next
    case hooks_done: (Inr u1)
    show ?thesis
    proof (cases r2)
      case (Inl e2)
      then show ?thesis
        using True h hooks_done e w2 kept [of "s\<lparr>apiHooks := []\<rparr>" w2]
        by (simp add: reload_def unregisterHooks_def unregisterEndpoints_def)
    next
      case (Inr u2)
      let ?s3 = "(if SERVE_APP env
                  then s\<lparr>apiHooks := [], endpointRouter := [], apiEndpoints := [], appExtensions := []\<rparr>
                  else s\<lparr>apiHooks := [], endpointRouter := [], apiEndpoints := []\<rparr>)\<lparr>isInitialized := False\<rparr>"
      have "names_below (?s3, w2)"
        by (rule kept) (use w2 in simp_all)
      then have "names_below (snd (initialize env True ?s3 w2))"
        by (rule names_below_initialize)
      then show ?thesis
        using True h hooks_done e Inr
        by (simp add: reload_def unregisterHooks_def unregisterEndpoints_def)
    qed
  qed
qed

lemma names_below_install:
  assumes "names_below (s, w)"
  shows "names_below (snd (install env n s w))"
proof -
  have called: "names_below (s, record_call (CallInstallPackage n) w)"
    using assms by (rule names_below_kept) simp_all
  then have "names_below (snd (reload env s (record_call (CallInstallPackage n) w)))"
    by (rule names_below_reload)
  then show ?thesis
    using assms called
    by (cases "EXTENSION_NAME_REGEX env n"; cases "installPackage env n")
       (auto simp: install_invalid_name install_not_installed install_installed
          split: prod.splits)
qed

lemma fire_tasks_frame:
  "tasks (snd (fire_tasks run t ts s w)) = tasks w \<and>
   next_task (snd (fire_tasks run t ts s w)) = next_task w"
proof (induction ts arbitrary: w)
  case Nil
  show ?case by simp
next
  case (Cons x ts)
  obtain t' c h where x: "x = (t', c, h)" by (cases x)
  obtain r w1 where cb: "cron_callback run h s w = (r, w1)" by (cases "cron_callback run h s w")
  have r: "r = Inr ()" using cron_callback_returns [of run h s w] cb by simp
  have "tasks w1 = tasks w \<and> next_task w1 = next_task w"
    using cron_callback_frame [of run h s w] cb by simp
  then show ?case
    using x cb r Cons.IH [of w1] Cons.IH [of w] by simp
qed

lemma reachable_names_below: "reachable s w \<Longrightarrow> names_below (s, w)"
proof (induction rule: reachable.induct)
  case (created w)
  then show ?case by (simp add: names_below_def new_ExtensionManager_def)
next
  case (initialized s w env sched r s' w')
  then show ?case using names_below_initialize [of s w env sched] by simp
next
  case (reloaded s w env r s' w')
  then show ?case using names_below_reload [of s w env] by simp
next
  case (installed s w env n r s' w')
  then show ?case using names_below_install [of s w env n] by simp
next
  case (fired s w run t r w')
  have "names_below (s, w)"
    by (rule fired.IH)
  then show ?case
    by (rule names_below_kept)
       (use fired.hyps(2) fire_tasks_frame [of run t "tasks w" s w] in \<open>simp_all add: fire_def\<close>)
qed

lemma sample_world_reachable: "reachable new_ExtensionManager sample_world"
  by (rule reachable.created) (simp add: sample_world_def)

lemma sample_events_active_reachable:
  "reachable (fst sample_events_active) (snd sample_events_active)"
proof -
  have "initialize sample_env_events True new_ExtensionManager sample_world =
      (fst (initialize sample_env_events True new_ExtensionManager sample_world),
       fst sample_events_active, snd sample_events_active)"
    by (simp add: sample_events_active_def)
  with sample_world_reachable show ?thesis
    by (rule reachable.initialized)
qed

lemma sample_half_reachable: "reachable (fst sample_half) (snd sample_half)"
proof -
  have "initialize sample_env_app_broken True new_ExtensionManager sample_world =
      (fst (initialize sample_env_app_broken True new_ExtensionManager sample_world),
       fst sample_half, snd sample_half)"
    by (simp add: sample_half_def)
  with sample_world_reachable show ?thesis
    by (rule reachable.initialized)
qed

lemma reload_guard: "\<not> isInitialized s \<Longrightarrow> reload env s w = (Inr (), s, w)"
  by (simp add: reload_def)




end
